theory Spec2Isabelle
  imports Main "HOL-Library.Multiset"
begin

section \<open>Card model (types.ts, card.ts)\<close>

text \<open>
  The enums of \<^verbatim>\<open>types.ts\<close> are datatypes whose constructors are listed in the order of
  declaration, which is the order \<^verbatim>\<open>Object.values\<close> yields for a string enum.
\<close>

datatype Suit = Hearts | Diamonds | Clubs | Spades

datatype Rank = Two | Three | Four | Five | Six | Seven | Eight | Nine | Ten
  | Jack | Queen | King | Ace

record Card =
  suit :: Suit
  rank :: Rank

datatype GamePhase = WaitingForPlayers | Passing | PassingComplete | PlayingTrick
  | TrickComplete | RoundScoring | RoundOver | GameOver

datatype PassingDirection = Left | Right | Across | Hold

text \<open>
  Player identifiers are UUID strings in the source; the code only ever compares them for
  equality, so they are an opaque type with decidable equality here.
\<close>

type_synonym playerId = nat

text \<open>\<^verbatim>\<open>Array.prototype.indexOf\<close>: the first position of the element, or -1.\<close>

fun indexOf :: "'a list \<Rightarrow> 'a \<Rightarrow> int" where
  "indexOf [] x = -1"
| "indexOf (y # ys) x =
     (if y = x then 0 else (let r = indexOf ys x in if r < 0 then -1 else r + 1))"

definition suitValues :: "Suit list" where
  "suitValues = [Hearts, Diamonds, Clubs, Spades]"

definition rankValues :: "Rank list" where
  "rankValues = [Two, Three, Four, Five, Six, Seven, Eight, Nine, Ten, Jack, Queen, King, Ace]"

definition createDeck :: "Card list" where
  "createDeck = concat (map (\<lambda>s. map (\<lambda>r. \<lparr>suit = s, rank = r\<rparr>) rankValues) suitValues)"

definition suitOrder :: "Suit list" where
  "suitOrder = [Clubs, Diamonds, Spades, Hearts]"

definition compareCards :: "Card \<Rightarrow> Card \<Rightarrow> int" where
  "compareCards a b =
     (let suitDiff = indexOf suitOrder (suit a) - indexOf suitOrder (suit b)
      in if suitDiff \<noteq> 0 then suitDiff
         else indexOf rankValues (rank a) - indexOf rankValues (rank b))"

definition getCardValue :: "Card \<Rightarrow> int" where
  "getCardValue c =
     (if suit c = Hearts then 1
      else if suit c = Spades \<and> rank c = Queen then 13
      else 0)"

definition isQueenOfSpades :: "Card \<Rightarrow> bool" where
  "isQueenOfSpades c \<longleftrightarrow> suit c = Spades \<and> rank c = Queen"

text \<open>
  \<^verbatim>\<open>hand.sort(compareCards)\<close>: the specification of \<^verbatim>\<open>Array.prototype.sort\<close> makes it stable,
  and \<^verbatim>\<open>compareCards\<close> is a consistent comparator, so the outcome is the stable sort, here
  computed by insertion.
\<close>

fun insertCard :: "Card \<Rightarrow> Card list \<Rightarrow> Card list" where
  "insertCard c [] = [c]"
| "insertCard c (d # ds) = (if compareCards c d < 0 then c # d # ds else d # insertCard c ds)"

fun sortHand :: "Card list \<Rightarrow> Card list" where
  "sortHand [] = []"
| "sortHand (c # cs) = insertCard c (sortHand cs)"

section \<open>Seats, tricks and the session state (player.ts, game.ts)\<close>

text \<open>
  A \<^verbatim>\<open>Player\<close> object without its socket and display name. Its \<^verbatim>\<open>id\<close> is assigned once by the
  constructor and is the key under which \<^verbatim>\<open>addPlayer\<close> stores the object, so the key of
  the map stands for it.
\<close>

record Player =
  hand :: "Card list"
  score :: int
  roundScore :: int
  cardsToPass :: "Card list option"
  receivedCards :: "Card list option"

record Trick =
  leadingSuit :: "Suit option"
  cards :: "(playerId \<times> Card) list"
  trickWinnerId :: "playerId option"

text \<open>
  \<^verbatim>\<open>players\<close> is a JavaScript \<^verbatim>\<open>Map\<close>, iterated in insertion order: an association list
  whose keys are distinct.
\<close>

record Game =
  players :: "(playerId \<times> Player) list"
  playerOrder :: "playerId list"
  deck :: "Card list"
  roundNumber :: int
  passingDirection :: "PassingDirection option"
  currentPlayerIndex :: int
  currentTrick :: Trick
  heartsBroken :: bool
  phase :: GamePhase

definition MAX_PLAYERS :: nat where "MAX_PLAYERS = 4"
definition SCORE_LIMIT :: int where "SCORE_LIMIT = 100"
definition PASS_COUNT :: nat where "PASS_COUNT = 3"

text \<open>The messages of thrown errors and of \<^verbatim>\<open>sendError\<close>, one constructor per text.\<close>

datatype reason =
    CannotPassNow
  | NotYourTurn
  | InvalidNumberOfCards
  | AlreadySelected
  | InvalidCardOrNotInHand
  | CardNotInHand
  | MustLeadTwoOfClubs
  | NoPointsOnFirstTrick
  | MustFollowSuit Suit
  | CannotLeadHearts
  | CardNotFound
  | EmptyTrick
  | TypeError

definition createEmptyTrick :: Trick where
  "createEmptyTrick = \<lparr>leadingSuit = None, cards = [], trickWinnerId = None\<rparr>"

section \<open>Outbound events\<close>

text \<open>
  The core talks to the transport through three callbacks; each invocation is one event.
  Payloads keep what the properties below read: the reason of an error, the enumerated moves, the
  winner of a trick, the shooter, the announced winner. The state snapshot carried by
  \<^verbatim>\<open>GameStateUpdate\<close> is left out.
\<close>

record PlayerInfo =
  info_id :: playerId
  info_score :: int
  info_roundScore :: int

datatype ServerMsg =
    GameStateUpdate
  | YourTurn "Card list"
  | CardsPassed "Card list option"
  | TrickWon playerId int
  | RoundScored "playerId option"
  | GameOverMsg "PlayerInfo option"
  | ErrorMsg reason

datatype Out = SendTo playerId ServerMsg | Broadcast ServerMsg | OnGameEnd

datatype ClientMsg = SelectCardsToPass "Card list" | PlayCard Card | OtherMsg

text \<open>
  A handler returns the state it leaves behind, the events it emitted, and the error it
  threw, if any: a \<^verbatim>\<open>throw\<close> keeps every mutation made before it.
\<close>

type_synonym result = "Game \<times> Out list \<times> reason option"

definition andThen :: "result \<Rightarrow> (Game \<Rightarrow> result) \<Rightarrow> result" where
  "andThen r f =
     (case r of
        (g, outs, Some e) \<Rightarrow> (g, outs, Some e)
      | (g, outs, None) \<Rightarrow> (case f g of (g', outs', e') \<Rightarrow> (g', outs @ outs', e')))"

text \<open>Remainder as JavaScript computes it on integers (the sign of the dividend).\<close>

definition jsRem :: "int \<Rightarrow> int \<Rightarrow> int" where
  "jsRem a b = (if a < 0 then - ((- a) mod \<bar>b\<bar>) else a mod \<bar>b\<bar>)"

text \<open>Mutation of the \<^verbatim>\<open>Player\<close> object stored under a key of the map.\<close>

fun updPlayer ::
  "playerId \<Rightarrow> (Player \<Rightarrow> Player) \<Rightarrow> (playerId \<times> Player) list \<Rightarrow> (playerId \<times> Player) list" where
  "updPlayer pid f [] = []"
| "updPlayer pid f ((k, p) # ps) =
     (if k = pid then (k, f p) # ps else (k, p) # updPlayer pid f ps)"

definition getPlayer :: "Game \<Rightarrow> playerId \<Rightarrow> Player option" where
  "getPlayer g pid = map_of (players g) pid"

definition getPlayerInfo :: "playerId \<Rightarrow> Player \<Rightarrow> PlayerInfo" where
  "getPlayerInfo pid p = \<lparr>info_id = pid, info_score = score p, info_roundScore = roundScore p\<rparr>"

definition getCurrentPlayerId :: "Game \<Rightarrow> playerId option" where
  "getCurrentPlayerId g =
     (if currentPlayerIndex g < 0 \<or> currentPlayerIndex g \<ge> int (length (playerOrder g)) then None
      else Some (playerOrder g ! nat (currentPlayerIndex g)))"

text \<open>
  \<^verbatim>\<open>getAllPlayerInfo\<close> dereferences \<^verbatim>\<open>players.get(id)!\<close> for every identifier of the seating
  order, and throws a \<^verbatim>\<open>TypeError\<close> at one that the map does not hold.
\<close>

definition getAllPlayerInfo :: "Game \<Rightarrow> reason + PlayerInfo list" where
  "getAllPlayerInfo g =
     (case those (map (\<lambda>k. map_option (getPlayerInfo k) (getPlayer g k)) (playerOrder g)) of
        None \<Rightarrow> Inl TypeError
      | Some infos \<Rightarrow> Inr infos)"

definition getGameStateForPlayer :: "Game \<Rightarrow> playerId \<Rightarrow> reason option" where
  "getGameStateForPlayer g pid =
     (case getAllPlayerInfo g of Inl e \<Rightarrow> Some e | Inr _ \<Rightarrow> None)"

definition broadcastGameState :: "Game \<Rightarrow> result" where
  "broadcastGameState g =
     (case players g of
        [] \<Rightarrow> (g, [], None)
      | (k, p) # _ \<Rightarrow>
          (case getGameStateForPlayer g k of
             Some e \<Rightarrow> (g, [], Some e)
           | None \<Rightarrow> (g, map (\<lambda>(k, p). SendTo k GameStateUpdate) (players g), None)))"

section \<open>Deck and dealing\<close>

text \<open>
  \<^verbatim>\<open>shuffleDeck\<close> draws \<^verbatim>\<open>Math.floor(Math.random() * (i + 1))\<close>, an index between 0 and i, for
  i from the last position down to 1. The random source is a parameter: \<open>rnd i\<close> is the
  draw made at position i, reduced into that range.
\<close>

fun shuffleLoop :: "(nat \<Rightarrow> nat) \<Rightarrow> nat \<Rightarrow> Card list \<Rightarrow> Card list" where
  "shuffleLoop rnd 0 d = d"
| "shuffleLoop rnd (Suc i) d =
     (let j = rnd (Suc i) mod (Suc i + 1)
      in shuffleLoop rnd i (d[Suc i := d ! j, j := d ! Suc i]))"

definition shuffleDeck :: "(nat \<Rightarrow> nat) \<Rightarrow> Card list \<Rightarrow> Card list" where
  "shuffleDeck rnd d = shuffleLoop rnd (length d - 1) d"

fun dealLoop ::
  "playerId list \<Rightarrow> Card list \<Rightarrow> nat \<Rightarrow> (playerId \<times> Player) list \<Rightarrow> (playerId \<times> Player) list" where
  "dealLoop ids [] playerIndex ps = ps"
| "dealLoop ids (c # cs) playerIndex ps =
     (let k = playerIndex mod MAX_PLAYERS;
          ps' = (if k < length ids
                 then updPlayer (ids ! k) (\<lambda>p. p\<lparr>hand := hand p @ [c]\<rparr>) ps
                 else ps)
      in dealLoop ids cs (playerIndex + 1) ps')"

definition dealCards :: "Game \<Rightarrow> Game" where
  "dealCards g =
     g\<lparr>players := map (\<lambda>(k, p). (k, p\<lparr>hand := sortHand (hand p)\<rparr>))
                       (dealLoop (playerOrder g) (deck g) 0 (players g))\<rparr>"

definition getPassingDirection :: "int \<Rightarrow> PassingDirection" where
  "getPassingDirection round =
     (let directionIndex = jsRem (round - 1) 4
      in if directionIndex = 0 then Left
         else if directionIndex = 1 then Right
         else if directionIndex = 2 then Across
         else Hold)"

definition isTwoOfClubs :: "Card \<Rightarrow> bool" where
  "isTwoOfClubs c \<longleftrightarrow> rank c = Two \<and> suit c = Clubs"

fun findTwoLoop :: "Game \<Rightarrow> playerId list \<Rightarrow> int \<Rightarrow> int" where
  "findTwoLoop g [] i = 0"
| "findTwoLoop g (k # ks) i =
     (case getPlayer g k of
        Some p \<Rightarrow> if list_ex isTwoOfClubs (hand p) then i else findTwoLoop g ks (i + 1)
      | None \<Rightarrow> findTwoLoop g ks (i + 1))"

definition findPlayerWithTwoOfClubs :: "Game \<Rightarrow> int" where
  "findPlayerWithTwoOfClubs g = findTwoLoop g (playerOrder g) 0"

definition resetForNewRound :: "Player \<Rightarrow> Player" where
  "resetForNewRound p = p\<lparr>hand := [], roundScore := 0, cardsToPass := None, receivedCards := None\<rparr>"

definition addReceivedCardsToHand :: "Player \<Rightarrow> Player" where
  "addReceivedCardsToHand p =
     (case receivedCards p of
        Some rc \<Rightarrow> p\<lparr>hand := sortHand (hand p @ rc), receivedCards := None\<rparr>
      | None \<Rightarrow> p)"

section \<open>Rules engine\<close>

text \<open>
  \<^verbatim>\<open>isFirstTrick\<close> reads the hand of the first seat of the seating order; a missing seat
  makes the optional chain \<^verbatim>\<open>undefined\<close>, which is not 13.
\<close>

definition isFirstTrick :: "Game \<Rightarrow> bool" where
  "isFirstTrick g =
     (case playerOrder g of
        [] \<Rightarrow> False
      | k # _ \<Rightarrow> (case getPlayer g k of None \<Rightarrow> False | Some p \<Rightarrow> length (hand p) = 13))"

text \<open>
  \<^verbatim>\<open>isValidPlay\<close> returns false exactly when it has sent an error to the player;
  \<open>isValidPlay_reason\<close> is that error, and \<open>None\<close> stands for the result true.
\<close>

definition isValidPlay_reason :: "Game \<Rightarrow> Player \<Rightarrow> Card \<Rightarrow> reason option" where
  "isValidPlay_reason g player c =
     (let hnd = hand player;
          isFirstPlayerInTrick = (length (cards (currentTrick g)) = 0);
          ls = leadingSuit (currentTrick g)
      in if \<not> list_ex (\<lambda>h. suit h = suit c \<and> rank h = rank c) hnd then Some CardNotInHand
         else if isFirstTrick g \<and> isFirstPlayerInTrick then
           (if suit c \<noteq> Clubs \<or> rank c \<noteq> Two then Some MustLeadTwoOfClubs else None)
         else if isFirstTrick g \<and> getCardValue c > 0 \<and>
                 \<not> list_all (\<lambda>h. getCardValue h > 0) hnd then Some NoPointsOnFirstTrick
         else if \<not> isFirstPlayerInTrick \<and> ls \<noteq> None \<and>
                 list_ex (\<lambda>h. Some (suit h) = ls) hnd \<and> Some (suit c) \<noteq> ls
           then Some (MustFollowSuit (case ls of Some s \<Rightarrow> s | None \<Rightarrow> suit c))
         else if isFirstPlayerInTrick \<and> suit c = Hearts \<and> \<not> heartsBroken g \<and>
                 \<not> list_all (\<lambda>h. suit h = Hearts) hnd then Some CannotLeadHearts
         else None)"

definition isValidPlay :: "Game \<Rightarrow> Player \<Rightarrow> Card \<Rightarrow> bool" where
  "isValidPlay g player c \<longleftrightarrow> isValidPlay_reason g player c = None"

text \<open>The first loop of \<^verbatim>\<open>calculateValidMoves\<close>: the three rules applied card by card.\<close>

definition ruleFilter :: "Game \<Rightarrow> Card list \<Rightarrow> Card list" where
  "ruleFilter g hnd =
     (let isFirstPlayerInTrick = (length (cards (currentTrick g)) = 0);
          ls = leadingSuit (currentTrick g);
          canFollowSuit = (ls \<noteq> None \<and> list_ex (\<lambda>h. Some (suit h) = ls) hnd);
          isFirst = isFirstTrick g;
          canPlayPointsOnFirstTrick = list_all (\<lambda>h. getCardValue h > 0) hnd;
          canLeadHearts = (heartsBroken g \<or> list_all (\<lambda>h. suit h = Hearts) hnd)
      in filter (\<lambda>c.
           \<not> (isFirst \<and> getCardValue c > 0 \<and> \<not> canPlayPointsOnFirstTrick) \<and>
           \<not> (ls \<noteq> None \<and> canFollowSuit \<and> Some (suit c) \<noteq> ls) \<and>
           \<not> (isFirstPlayerInTrick \<and> suit c = Hearts \<and> \<not> canLeadHearts)) hnd)"

text \<open>The second loop, run when the seat cannot follow the leading suit.\<close>

definition nonFollowFilter :: "Game \<Rightarrow> Card list \<Rightarrow> Card list" where
  "nonFollowFilter g hnd =
     filter (\<lambda>c. \<not> (isFirstTrick g \<and> getCardValue c > 0 \<and>
                     \<not> list_all (\<lambda>h. getCardValue h > 0) hnd)) hnd"

definition calculateValidMoves :: "Game \<Rightarrow> Player \<Rightarrow> Card list" where
  "calculateValidMoves g player =
     (let hnd = hand player;
          isFirstPlayerInTrick = (length (cards (currentTrick g)) = 0);
          ls = leadingSuit (currentTrick g)
      in if isFirstTrick g \<and> isFirstPlayerInTrick then
           (case find isTwoOfClubs hnd of Some twoOfClubs \<Rightarrow> [twoOfClubs] | None \<Rightarrow> [])
         else
           (let canFollowSuit = (ls \<noteq> None \<and> list_ex (\<lambda>h. Some (suit h) = ls) hnd);
                validMoves = ruleFilter g hnd
            in if ls \<noteq> None \<and> \<not> canFollowSuit then
                 (let nonFollowMoves = nonFollowFilter g hnd
                  in if length nonFollowMoves > 0 then nonFollowMoves else hnd)
               else if length validMoves = 0 \<and> length hnd > 0 then hnd
               else validMoves))"

definition notifyCurrentPlayerTurn :: "Game \<Rightarrow> result" where
  "notifyCurrentPlayerTurn g =
     (case getCurrentPlayerId g of
        None \<Rightarrow> (g, [], None)
      | Some k \<Rightarrow>
          if phase g = PlayingTrick then
            (case getPlayer g k of
               None \<Rightarrow> (g, [], Some TypeError)
             | Some p \<Rightarrow> (g, [SendTo k (YourTurn (calculateValidMoves g p))], None))
          else (g, [], None))"

section \<open>Trick resolver\<close>

text \<open>
  The \<^verbatim>\<open>for\<close> loop of \<^verbatim>\<open>calculateTrickWinner\<close>, from index \<open>i\<close> with the current winner.
\<close>

function trickWinnerLoop ::
  "Suit \<Rightarrow> (playerId \<times> Card) list \<Rightarrow> nat \<Rightarrow> playerId \<times> Card \<Rightarrow> playerId \<times> Card" where
  "trickWinnerLoop ls cs i w =
     (if i < length cs then
        (let currentPlayed = cs ! i; currentCard = snd currentPlayed in
         if suit currentCard = ls \<and>
            indexOf rankValues (rank currentCard) > indexOf rankValues (rank (snd w))
         then trickWinnerLoop ls cs (i + 1) currentPlayed
         else trickWinnerLoop ls cs (i + 1) w)
      else w)"
  by pat_completeness auto
termination
  by (relation "measure (\<lambda>(ls, cs, i, w). length cs - i)") auto

declare trickWinnerLoop.simps [simp del]

definition calculateTrickWinner :: "Trick \<Rightarrow> reason + (playerId \<times> Card)" where
  "calculateTrickWinner t =
     (case leadingSuit t of
        None \<Rightarrow> Inl EmptyTrick
      | Some ls \<Rightarrow>
          (case cards t of
             [] \<Rightarrow> Inl EmptyTrick
           | first # _ \<Rightarrow> Inr (trickWinnerLoop ls (cards t) 1 first)))"

text \<open>
  The resolver as the specification words it: the winner starts as the first entry, and
  each later entry of the leading suit with a strictly higher rank takes over.
\<close>

definition rankIndex :: "Card \<Rightarrow> int" where
  "rankIndex c = indexOf rankValues (rank c)"

definition resolveStep :: "Suit \<Rightarrow> playerId \<times> Card \<Rightarrow> playerId \<times> Card \<Rightarrow> playerId \<times> Card" where
  "resolveStep ls w e = (if suit (snd e) = ls \<and> rankIndex (snd e) > rankIndex (snd w) then e else w)"

definition resolveTrick_spec :: "Suit \<Rightarrow> (playerId \<times> Card) list \<Rightarrow> playerId \<times> Card" where
  "resolveTrick_spec ls entries = foldl (resolveStep ls) (hd entries) (tl entries)"


section \<open>Passing coordinator\<close>

text \<open>
  The first loop of \<^verbatim>\<open>executePassing\<close>, over the indices of the seating order. It carries
  the map of players and the local map \<^verbatim>\<open>tempReceived\<close>; the non-null assertion on
  \<^verbatim>\<open>players.get\<close> throws at a seat the map does not hold.
\<close>

definition targetPlayerIndex :: "PassingDirection \<Rightarrow> nat \<Rightarrow> nat \<Rightarrow> nat" where
  "targetPlayerIndex d i numPlayers =
     (case d of
        Left \<Rightarrow> nat (jsRem (int i + 1) (int numPlayers))
      | Right \<Rightarrow> nat (jsRem (int i - 1 + int numPlayers) (int numPlayers))
      | Across \<Rightarrow> nat (jsRem (int i + 2) (int numPlayers))
      | Hold \<Rightarrow> i)"

type_synonym passState = "(playerId \<times> Player) list \<times> (playerId \<rightharpoonup> Card list option)"

fun passLoop ::
  "PassingDirection \<Rightarrow> playerId list \<Rightarrow> nat list \<Rightarrow> passState \<Rightarrow> passState \<times> reason option" where
  "passLoop d ids [] st = (st, None)"
| "passLoop d ids (i # is) (ps, tempReceived) =
     (case map_of ps (ids ! i) of
        None \<Rightarrow> ((ps, tempReceived), Some TypeError)
      | Some currentPlayer \<Rightarrow>
          passLoop d ids is
            (updPlayer (ids ! i) (\<lambda>p. p\<lparr>cardsToPass := None\<rparr>) ps,
             tempReceived(ids ! targetPlayerIndex d i (length ids) \<mapsto> cardsToPass currentPlayer)))"

definition receiveFrom :: "(playerId \<rightharpoonup> Card list option) \<Rightarrow> playerId \<Rightarrow> Card list" where
  "receiveFrom tempReceived k =
     (case tempReceived k of Some (Some cs) \<Rightarrow> cs | _ \<Rightarrow> [])"

definition executePassing :: "Game \<Rightarrow> result" where
  "executePassing g =
     (case passingDirection g of
        None \<Rightarrow> (g, [], None)
      | Some Hold \<Rightarrow> (g, [], None)
      | Some d \<Rightarrow>
          (case passLoop d (playerOrder g) [0 ..< length (playerOrder g)] (players g, Map.empty) of
             ((ps, tempReceived), Some e) \<Rightarrow> (g\<lparr>players := ps\<rparr>, [], Some e)
           | ((ps, tempReceived), None) \<Rightarrow>
               (let ps' = map (\<lambda>(k, p). (k, addReceivedCardsToHand
                                   (p\<lparr>receivedCards := Some (receiveFrom tempReceived k)\<rparr>))) ps;
                    outs = map (\<lambda>(k, p). SendTo k (CardsPassed (receivedCards p))) ps';
                    g1 = g\<lparr>players := ps'\<rparr>;
                    g2 = g1\<lparr>phase := PlayingTrick\<rparr>;
                    g3 = g2\<lparr>currentPlayerIndex := findPlayerWithTwoOfClubs g2\<rparr>
                in andThen (andThen (g3, outs, None) broadcastGameState) notifyCurrentPlayerTurn)))"

text \<open>
  \<^verbatim>\<open>handlePassCards\<close>. The set \<^verbatim>\<open>handSet\<close> holds the suit and rank characters of each card of
  the hand, so a card passes its test exactly if it is in the hand. The cards of a message
  are taken as well-typed cards; the test \<^verbatim>\<open>Array.isArray\<close> and the \<^verbatim>\<open>typeof\<close> tests then hold.
\<close>

definition handlePassCards :: "Game \<Rightarrow> playerId \<Rightarrow> Player \<Rightarrow> Card list \<Rightarrow> result" where
  "handlePassCards g pid player cs =
     (if length cs \<noteq> PASS_COUNT then (g, [], Some InvalidNumberOfCards)
      else if cardsToPass player \<noteq> None then (g, [], Some AlreadySelected)
      else if \<not> list_all (\<lambda>c. c \<in> set (hand player)) cs then (g, [], Some InvalidCardOrNotInHand)
      else
        (let g1 = g\<lparr>players := updPlayer pid
                      (\<lambda>p. p\<lparr>cardsToPass := Some cs,
                              hand := filter (\<lambda>handCard.
                                 \<not> list_ex (\<lambda>passCard. suit passCard = suit handCard \<and>
                                                        rank passCard = rank handCard) cs) (hand p)\<rparr>)
                      (players g)\<rparr>
         in case getGameStateForPlayer g1 pid of
              Some e \<Rightarrow> (g1, [], Some e)
            | None \<Rightarrow>
                andThen (g1, [SendTo pid GameStateUpdate], None)
                  (\<lambda>g1. if list_all (\<lambda>(k, p). cardsToPass p \<noteq> None) (players g1)
                        then executePassing g1
                        else broadcastGameState g1)))"

section \<open>Playing a card, resolving a trick, scoring\<close>

text \<open>
  The \<^verbatim>\<open>forEach\<close> of \<^verbatim>\<open>endGame\<close>, with the winner and the lowest score found so far;
  the initial \<^verbatim>\<open>Infinity\<close> is \<open>None\<close>.
\<close>

fun lowestLoop ::
  "(playerId \<times> Player) list \<Rightarrow> PlayerInfo option \<times> int option \<Rightarrow> PlayerInfo option \<times> int option" where
  "lowestLoop [] acc = acc"
| "lowestLoop ((k, p) # ps) (winner, lowestScore) =
     (let info = getPlayerInfo k p
      in if (case lowestScore of None \<Rightarrow> True | Some l \<Rightarrow> info_score info < l)
         then lowestLoop ps (Some info, Some (info_score info))
         else lowestLoop ps (winner, lowestScore))"

definition endGame :: "Game \<Rightarrow> result" where
  "endGame g =
     (let g1 = g\<lparr>phase := GameOver\<rparr>;
          winner = fst (lowestLoop (players g1) (None, None))
      in case getAllPlayerInfo g1 of
           Inl e \<Rightarrow> (g1, [], Some e)
         | Inr finalScores \<Rightarrow> (g1, [Broadcast (GameOverMsg winner), OnGameEnd], None))"

text \<open>
  \<^verbatim>\<open>endRound\<close> up to its timer. The callback of the timer is \<open>endRoundTimer\<close>; the flag
  \<^verbatim>\<open>gameOver\<close> it captured is recomputed there from the totals, which nothing changes
  while the phase is \<^verbatim>\<open>RoundScoring\<close>.
\<close>

definition findShooter :: "(playerId \<times> Player) list \<Rightarrow> playerId option" where
  "findShooter ps = map_option fst (find (\<lambda>(k, p). roundScore p = 26) ps)"

definition endRound :: "Game \<Rightarrow> result" where
  "endRound g =
     (let g1 = g\<lparr>phase := RoundScoring\<rparr>;
          shooter = findShooter (players g1);
          g2 = (case shooter of
                  Some sid \<Rightarrow>
                    g1\<lparr>players := map (\<lambda>(k, p). if k = sid then (k, p\<lparr>score := score p + 0\<rparr>)
                                                 else (k, p\<lparr>score := score p + 26\<rparr>)) (players g1)\<rparr>
                | None \<Rightarrow>
                    g1\<lparr>players := map (\<lambda>(k, p). (k, p\<lparr>score := score p + roundScore p\<rparr>))
                                      (players g1)\<rparr>)
      in case getAllPlayerInfo g2 of
           Inl e \<Rightarrow> (g2, [], Some e)
         | Inr scores \<Rightarrow> (g2, [Broadcast (RoundScored shooter)], None))"

definition startNewRound :: "(nat \<Rightarrow> nat) \<Rightarrow> Game \<Rightarrow> result" where
  "startNewRound rnd g =
     (if length (players g) \<noteq> MAX_PLAYERS then (g, [], None)
      else
        (let g1 = g\<lparr>roundNumber := roundNumber g + 1\<rparr>;
             g2 = g1\<lparr>heartsBroken := False\<rparr>;
             g3 = g2\<lparr>currentTrick := createEmptyTrick\<rparr>;
             g4 = g3\<lparr>players := map (\<lambda>(k, p). (k, resetForNewRound p)) (players g3)\<rparr>;
             g5 = g4\<lparr>passingDirection := Some (getPassingDirection (roundNumber g4))\<rparr>;
             g6 = g5\<lparr>deck := shuffleDeck rnd createDeck\<rparr>;
             g7 = dealCards g6
         in if passingDirection g7 = Some Hold then
              (let g8 = g7\<lparr>phase := PlayingTrick\<rparr>;
                   g9 = g8\<lparr>currentPlayerIndex := findPlayerWithTwoOfClubs g8\<rparr>
               in andThen (broadcastGameState g9) notifyCurrentPlayerTurn)
            else broadcastGameState (g7\<lparr>phase := Passing\<rparr>)))"

definition endRoundTimer :: "(nat \<Rightarrow> nat) \<Rightarrow> Game \<Rightarrow> result" where
  "endRoundTimer rnd g =
     (if list_ex (\<lambda>(k, p). score p \<ge> SCORE_LIMIT) (players g) then endGame g
      else startNewRound rnd g)"

text \<open>
  \<^verbatim>\<open>endTrick\<close> up to its timer; \<open>endTrickTimer\<close> is the callback, with the winner it
  captured.
\<close>

definition endTrick :: "Game \<Rightarrow> result" where
  "endTrick g =
     (let g1 = g\<lparr>phase := TrickComplete\<rparr>
      in case calculateTrickWinner (currentTrick g1) of
           Inl e \<Rightarrow> (g1, [], Some e)
         | Inr (winnerId, winningCard) \<Rightarrow>
             (let g2 = g1\<lparr>currentTrick := (currentTrick g1)\<lparr>trickWinnerId := Some winnerId\<rparr>\<rparr>
              in case getPlayer g2 winnerId of
                   None \<Rightarrow> (g2, [], Some TypeError)
                 | Some winningPlayer \<Rightarrow>
                     (let trickPoints = sum_list (map (\<lambda>(k, c). getCardValue c)
                                                    (cards (currentTrick g2)));
                          g3 = g2\<lparr>players := updPlayer winnerId
                                  (\<lambda>p. p\<lparr>roundScore := roundScore p + trickPoints\<rparr>) (players g2)\<rparr>
                      in (g3, [Broadcast (TrickWon winnerId trickPoints)], None))))"

definition endTrickTimer :: "playerId \<Rightarrow> Game \<Rightarrow> result" where
  "endTrickTimer winnerId g =
     (case getPlayer g winnerId of
        None \<Rightarrow> (g, [], Some TypeError)
      | Some winningPlayer \<Rightarrow>
          if length (hand winningPlayer) = 0 then endRound g
          else
            (let g1 = g\<lparr>phase := PlayingTrick\<rparr>;
                 g2 = g1\<lparr>currentPlayerIndex := indexOf (playerOrder g1) winnerId\<rparr>;
                 g3 = g2\<lparr>currentTrick := createEmptyTrick\<rparr>
             in andThen (broadcastGameState g3) notifyCurrentPlayerTurn))"

text \<open>\<^verbatim>\<open>Array.prototype.findIndex\<close> and \<^verbatim>\<open>splice(i, 1)\<close>.\<close>

fun findIndex :: "('a \<Rightarrow> bool) \<Rightarrow> 'a list \<Rightarrow> nat option" where
  "findIndex P [] = None"
| "findIndex P (x # xs) = (if P x then Some 0 else map_option Suc (findIndex P xs))"

definition spliceOne :: "nat \<Rightarrow> 'a list \<Rightarrow> 'a list" where
  "spliceOne i xs = take i xs @ drop (Suc i) xs"

text \<open>
  \<^verbatim>\<open>handlePlayCard\<close>. The block of step 4 that tests for the queen of spades on the first
  trick has an empty body (its only statement is commented out), so it leaves no trace
  here. \<^verbatim>\<open>players.size\<close> is positive, the player being in the map, so the remainder is a
  number.
\<close>

definition handlePlayCard :: "Game \<Rightarrow> playerId \<Rightarrow> Player \<Rightarrow> Card \<Rightarrow> result" where
  "handlePlayCard g pid player c =
     (case isValidPlay_reason g player c of
        Some r \<Rightarrow> (g, [SendTo pid (ErrorMsg r)], None)
      | None \<Rightarrow>
          (case findIndex (\<lambda>h. suit h = suit c \<and> rank h = rank c) (hand player) of
             None \<Rightarrow> (g, [SendTo pid (ErrorMsg CardNotFound)], None)
           | Some cardIndex \<Rightarrow>
               (let g1 = g\<lparr>players := updPlayer pid
                             (\<lambda>p. p\<lparr>hand := spliceOne cardIndex (hand p)\<rparr>) (players g)\<rparr>;
                    g2 = g1\<lparr>currentTrick := (currentTrick g1)
                             \<lparr>cards := cards (currentTrick g1) @ [(pid, c)]\<rparr>\<rparr>;
                    g3 = (if length (cards (currentTrick g2)) = 1
                          then g2\<lparr>currentTrick := (currentTrick g2)\<lparr>leadingSuit := Some (suit c)\<rparr>\<rparr>
                          else g2);
                    g4 = (if suit c = Hearts \<and> \<not> heartsBroken g3
                          then g3\<lparr>heartsBroken := True\<rparr> else g3)
                in if length (cards (currentTrick g4)) = length (players g4)
                   then andThen (broadcastGameState g4) endTrick
                   else
                     (let g5 = g4\<lparr>currentPlayerIndex :=
                                  jsRem (currentPlayerIndex g4 + 1) (int (length (players g4)))\<rparr>
                      in andThen (broadcastGameState g5) notifyCurrentPlayerTurn))))"

text \<open>
  \<^verbatim>\<open>handleMessage\<close>: an unknown player is ignored; every error thrown by a handler is
  caught and reported to the sender with \<^verbatim>\<open>sendError\<close>.
\<close>

definition handleMessage :: "Game \<Rightarrow> playerId \<Rightarrow> ClientMsg \<Rightarrow> Game \<times> Out list" where
  "handleMessage g playerId message =
     (case getPlayer g playerId of
        None \<Rightarrow> (g, [])
      | Some player \<Rightarrow>
          (let r = (case message of
                      SelectCardsToPass cs \<Rightarrow>
                        if phase g = Passing then handlePassCards g playerId player cs
                        else (g, [], Some CannotPassNow)
                    | PlayCard c \<Rightarrow>
                        if phase g = PlayingTrick \<and> getCurrentPlayerId g = Some playerId
                        then handlePlayCard g playerId player c
                        else (g, [], Some NotYourTurn)
                    | OtherMsg \<Rightarrow> (g, [], None))
           in case r of
                (g', outs, Some e) \<Rightarrow> (g', outs @ [SendTo playerId (ErrorMsg e)])
              | (g', outs, None) \<Rightarrow> (g', outs)))"

section \<open>The cards a state holds\<close>

definition optCards :: "Card list option \<Rightarrow> Card list" where
  "optCards x = (case x of None \<Rightarrow> [] | Some cs \<Rightarrow> cs)"

definition playerCards :: "Player \<Rightarrow> Card list" where
  "playerCards p = hand p @ optCards (cardsToPass p) @ optCards (receivedCards p)"

definition allCards :: "Game \<Rightarrow> Card list" where
  "allCards g = concat (map (\<lambda>(k, p). playerCards p) (players g)) @ map snd (cards (currentTrick g))"


section \<open>Example states\<close>

abbreviation mkCard :: "Suit \<Rightarrow> Rank \<Rightarrow> Card" where
  "mkCard s r \<equiv> \<lparr>suit = s, rank = r\<rparr>"

text \<open>Scenario 4 of the specification: 9C led, then KC, 2D and AC.\<close>

definition scenario4Trick :: Trick where
  "scenario4Trick =
     \<lparr>leadingSuit = Some Clubs,
      cards = [(0, mkCard Clubs Nine), (1, mkCard Clubs King),
               (2, mkCard Diamonds Two), (3, mkCard Clubs Ace)],
      trickWinnerId = None\<rparr>"

text \<open>A trick in progress: one card played, the leading suit recorded.\<close>

definition oneCardTrick :: Trick where
  "oneCardTrick =
     \<lparr>leadingSuit = Some Clubs, cards = [(0, mkCard Clubs Nine)], trickWinnerId = None\<rparr>"

definition mkPlayer :: "Card list \<Rightarrow> int \<Rightarrow> int \<Rightarrow> Player" where
  "mkPlayer h s r = \<lparr>hand = h, score = s, roundScore = r, cardsToPass = None, receivedCards = None\<rparr>"

text \<open>Final totals with the two lowest tied.\<close>

definition tiedGame :: Game where
  "tiedGame =
     \<lparr>players = [(0, mkPlayer [] 100 0), (1, mkPlayer [] 50 0), (2, mkPlayer [] 50 0), (3, mkPlayer [] 70 0)],
      playerOrder = [0, 1, 2, 3], deck = [], roundNumber = 5, passingDirection = Some Left,
      currentPlayerIndex = 0, currentTrick = createEmptyTrick, heartsBroken = True,
      phase = RoundScoring\<rparr>"

text \<open>The seats a list of events announces as winners of the game.\<close>

definition announcedWinners :: "Out list \<Rightarrow> playerId list" where
  "announcedWinners outs =
     concat (map (\<lambda>ev. case ev of Broadcast (GameOverMsg (Some info)) \<Rightarrow> [info_id info] | _ \<Rightarrow> []) outs)"


text \<open>
  A trick in progress late in a round: seat 0 has led the 8C, seat 1 is to play and holds
  no club.
\<close>

definition midGame :: Game where
  "midGame =
     \<lparr>players = [(0, mkPlayer [mkCard Hearts Nine] 0 0),
                 (1, mkPlayer [mkCard Diamonds Three, mkCard Spades Queen] 0 0),
                 (2, mkPlayer [mkCard Clubs Seven, mkCard Hearts Two] 0 0),
                 (3, mkPlayer [mkCard Diamonds King, mkCard Hearts Four] 0 0)],
      playerOrder = [0, 1, 2, 3], deck = [], roundNumber = 1, passingDirection = Some Left,
      currentPlayerIndex = 1,
      currentTrick = \<lparr>leadingSuit = Some Clubs, cards = [(0, mkCard Clubs Eight)],
                      trickWinnerId = None\<rparr>,
      heartsBroken = False, phase = PlayingTrick\<rparr>"

section \<open>Auxiliary notions for the properties\<close>

text \<open>
  An event that reports an error; the two reasons that only an internal contract violation
  produces; and a result that reports no error to anybody and throws, if at all, for an
  internal reason.
\<close>

definition isErrorEvent :: "Out \<Rightarrow> bool" where
  "isErrorEvent ev = (case ev of SendTo q (ErrorMsg r) \<Rightarrow> True | _ \<Rightarrow> False)"

definition internalReason :: "reason \<Rightarrow> bool" where
  "internalReason r \<longleftrightarrow> r = TypeError \<or> r = EmptyTrick"

definition cleanResult :: "result \<Rightarrow> bool" where
  "cleanResult r \<longleftrightarrow>
     list_all (\<lambda>ev. \<not> isErrorEvent ev) (fst (snd r)) \<and>
     (case snd (snd r) of None \<Rightarrow> True | Some e \<Rightarrow> internalReason e)"

text \<open>The state \<^verbatim>\<open>handlePassCards\<close> reaches once it has staged an accepted selection.\<close>

definition stagePass :: "Game \<Rightarrow> playerId \<Rightarrow> Card list \<Rightarrow> Game" where
  "stagePass g pid cs =
     g\<lparr>players := updPlayer pid
          (\<lambda>p. p\<lparr>cardsToPass := Some cs,
                  hand := filter (\<lambda>handCard.
                     \<not> list_ex (\<lambda>passCard. suit passCard = suit handCard \<and>
                                            rank passCard = rank handCard) cs) (hand p)\<rparr>)
          (players g)\<rparr>"

text \<open>The cards held by the seats: hands and both pass-staging fields.\<close>

definition handCards :: "(playerId \<times> Player) list \<Rightarrow> Card list" where
  "handCards ps = concat (map (\<lambda>(k, p). playerCards p) ps)"

text \<open>
  The shape of a session once four players have joined: four seats, the seating order
  listing the keys of the map once each, and nothing left in \<^verbatim>\<open>receivedCards\<close>, which
  \<^verbatim>\<open>executePassing\<close> fills and empties in one go.
\<close>

definition wellFormed :: "Game \<Rightarrow> bool" where
  "wellFormed g \<longleftrightarrow>
     length (players g) = MAX_PLAYERS \<and> playerOrder g = map fst (players g) \<and>
     distinct (playerOrder g) \<and>
     list_all (\<lambda>(k, p). receivedCards p = None) (players g)"

text \<open>The branch of the timer of \<^verbatim>\<open>endTrick\<close> that starts the next trick.\<close>

definition startsNextTrick :: "playerId \<Rightarrow> Game \<Rightarrow> bool" where
  "startsNextTrick winnerId g =
     (case getPlayer g winnerId of Some p \<Rightarrow> hand p \<noteq> [] | None \<Rightarrow> False)"

text \<open>The state \<^verbatim>\<open>handlePlayCard\<close> reaches by steps 2 to 4, with the card at the index found.\<close>

definition placeCard :: "Game \<Rightarrow> playerId \<Rightarrow> Card \<Rightarrow> nat \<Rightarrow> Game" where
  "placeCard g pid c cardIndex =
     (let g1 = g\<lparr>players := updPlayer pid
                   (\<lambda>p. p\<lparr>hand := spliceOne cardIndex (hand p)\<rparr>) (players g)\<rparr>;
          g2 = g1\<lparr>currentTrick := (currentTrick g1)
                   \<lparr>cards := cards (currentTrick g1) @ [(pid, c)]\<rparr>\<rparr>;
          g3 = (if length (cards (currentTrick g2)) = 1
                then g2\<lparr>currentTrick := (currentTrick g2)\<lparr>leadingSuit := Some (suit c)\<rparr>\<rparr>
                else g2);
          g4 = (if suit c = Hearts \<and> \<not> heartsBroken g3
                then g3\<lparr>heartsBroken := True\<rparr> else g3)
      in g4)"

text \<open>The state \<^verbatim>\<open>startNewRound\<close> reaches once the cards are dealt.\<close>

definition dealRound :: "(nat \<Rightarrow> nat) \<Rightarrow> Game \<Rightarrow> Game" where
  "dealRound rnd g =
     (let g1 = g\<lparr>roundNumber := roundNumber g + 1\<rparr>;
          g2 = g1\<lparr>heartsBroken := False\<rparr>;
          g3 = g2\<lparr>currentTrick := createEmptyTrick\<rparr>;
          g4 = g3\<lparr>players := map (\<lambda>(k, p). (k, resetForNewRound p)) (players g3)\<rparr>;
          g5 = g4\<lparr>passingDirection := Some (getPassingDirection (roundNumber g4))\<rparr>;
          g6 = g5\<lparr>deck := shuffleDeck rnd createDeck\<rparr>;
          g7 = dealCards g6
      in g7)"



section \<open>A round from the deal\<close>

text \<open>
  The state at the moment the fourth player has joined, before \<^verbatim>\<open>startNewRound\<close>; a random
  source whose every draw leaves the deck in the order of \<^verbatim>\<open>createDeck\<close>; the deal of round
  1; and the run of a list of commands.
\<close>

definition joinedGame :: Game where
  "joinedGame =
     \<lparr>players = [(0, mkPlayer [] 0 0), (1, mkPlayer [] 0 0), (2, mkPlayer [] 0 0), (3, mkPlayer [] 0 0)],
      playerOrder = [0, 1, 2, 3], deck = [], roundNumber = 0, passingDirection = None,
      currentPlayerIndex = -1, currentTrick = createEmptyTrick, heartsBroken = False,
      phase = WaitingForPlayers\<rparr>"

definition noSwapDraws :: "nat \<Rightarrow> nat" where
  "noSwapDraws i = i"

definition dealtGame :: Game where
  "dealtGame = fst (startNewRound noSwapDraws joinedGame)"

fun runMessages :: "Game \<Rightarrow> (playerId \<times> ClientMsg) list \<Rightarrow> Game" where
  "runMessages g [] = g"
| "runMessages g ((k, m) # ms) = runMessages (fst (handleMessage g k m)) ms"

text \<open>
  Round 1 passes to the left. Seat 1 passes its three clubs and receives three hearts, so
  it holds no club when play begins; seat 2 holds the 2C and leads.
\<close>

definition passSelections :: "(playerId \<times> ClientMsg) list" where
  "passSelections =
     [(0, SelectCardsToPass [mkCard Hearts Two, mkCard Hearts Six, mkCard Hearts Ten]),
      (1, SelectCardsToPass [mkCard Clubs Five, mkCard Clubs Nine, mkCard Clubs King]),
      (2, SelectCardsToPass [mkCard Hearts Four, mkCard Hearts Eight, mkCard Hearts Queen]),
      (3, SelectCardsToPass [mkCard Hearts Five, mkCard Hearts Nine, mkCard Hearts King])]"

definition passedGame :: Game where
  "passedGame = runMessages dealtGame passSelections"

text \<open>The first trick of the round after 2C, 3C and 4C; seat 1 is to play.\<close>

definition firstTrickGame :: Game where
  "firstTrickGame = runMessages passedGame
     [(2, PlayCard (mkCard Clubs Two)), (3, PlayCard (mkCard Clubs Three)),
      (0, PlayCard (mkCard Clubs Four))]"

text \<open>The hand, the enumerated moves and the validator, read at a seat of a state.\<close>

definition seatHand :: "Game \<Rightarrow> playerId \<Rightarrow> Card list" where
  "seatHand g k = (case getPlayer g k of Some p \<Rightarrow> hand p | None \<Rightarrow> [])"

definition seatValidMoves :: "Game \<Rightarrow> playerId \<Rightarrow> Card list" where
  "seatValidMoves g k = (case getPlayer g k of Some p \<Rightarrow> calculateValidMoves g p | None \<Rightarrow> [])"

definition seatMayPlay :: "Game \<Rightarrow> playerId \<Rightarrow> Card \<Rightarrow> bool" where
  "seatMayPlay g k c = (case getPlayer g k of Some p \<Rightarrow> isValidPlay g p c | None \<Rightarrow> False)"

text \<open>The branch both rule functions take first: first trick, by the test of the code, and nobody has played.\<close>

definition openingLead :: "Game \<Rightarrow> bool" where
  "openingLead g \<longleftrightarrow> isFirstTrick g \<and> cards (currentTrick g) = []"

text \<open>The timer of \<^verbatim>\<open>endTrick\<close> firing, with the winner recorded in the trick.\<close>

definition runTrickTimer :: "Game \<Rightarrow> Game" where
  "runTrickTimer g =
     (case trickWinnerId (currentTrick g) of Some w \<Rightarrow> fst (endTrickTimer w g) | None \<Rightarrow> g)"

text \<open>The round above once seat 1 has played the 2D and the second trick has begun.\<close>

definition secondTrickGame :: Game where
  "secondTrickGame =
     runTrickTimer (fst (handleMessage firstTrickGame 1 (PlayCard (mkCard Diamonds Two))))"

text \<open>
  The same round with a selection that names one card three times: seat 0 submits the 2H,
  the 2H and the 2H.
\<close>

definition duplicateSelections :: "(playerId \<times> ClientMsg) list" where
  "duplicateSelections =
     [(0, SelectCardsToPass [mkCard Hearts Two, mkCard Hearts Two, mkCard Hearts Two]),
      (1, SelectCardsToPass [mkCard Clubs Five, mkCard Clubs Nine, mkCard Clubs King]),
      (2, SelectCardsToPass [mkCard Hearts Four, mkCard Hearts Eight, mkCard Hearts Queen]),
      (3, SelectCardsToPass [mkCard Hearts Five, mkCard Hearts Nine, mkCard Hearts King])]"

definition duplicatePassedGame :: Game where
  "duplicatePassedGame = runMessages dealtGame duplicateSelections"

text \<open>
  The round with the repeated selection, two tricks on: seat 0 takes the first trick with
  the QC and the second with the KD. Then the timer of the second trick fires; its events
  are \<open>timerEvents\<close>.
\<close>

definition twoTricksGame :: Game where
  "twoTricksGame =
     runMessages
       (runTrickTimer
          (runMessages duplicatePassedGame
             [(2, PlayCard (mkCard Clubs Two)), (3, PlayCard (mkCard Clubs Three)),
              (0, PlayCard (mkCard Clubs Queen)), (1, PlayCard (mkCard Diamonds Two))]))
       [(0, PlayCard (mkCard Diamonds King)), (1, PlayCard (mkCard Diamonds Six)),
        (2, PlayCard (mkCard Diamonds Three)), (3, PlayCard (mkCard Diamonds Four))]"

definition thirdTrickGame :: Game where
  "thirdTrickGame = runTrickTimer twoTricksGame"

definition timerEvents :: "Game \<Rightarrow> Out list" where
  "timerEvents g =
     (case trickWinnerId (currentTrick g) of
        Some w \<Rightarrow> fst (snd (endTrickTimer w g))
      | None \<Rightarrow> [])"

section \<open>Trick resolver: properties\<close>

lemma trickWinnerLoop_foldl:
  "trickWinnerLoop ls cs i w = foldl (resolveStep ls) w (drop i cs)"
proof (induction ls cs i w rule: trickWinnerLoop.induct)
  case (1 ls cs i w)
  show ?case
  proof (cases "i < length cs")
    case True
    then have d: "drop i cs = cs ! i # drop (Suc i) cs"
      by (simp add: Cons_nth_drop_Suc)
    show ?thesis
    proof (cases "suit (snd (cs ! i)) = ls \<and>
        indexOf rankValues (rank (snd (cs ! i))) > indexOf rankValues (rank (snd w))")
      case c: True
      then have st: "resolveStep ls w (cs ! i) = cs ! i"
        by (simp add: resolveStep_def rankIndex_def)
      from True c "1.IH"(1) [OF True refl refl] show ?thesis
        by (subst trickWinnerLoop.simps) (simp add: d st Let_def)
    next
      case c: False
      then have st: "resolveStep ls w (cs ! i) = w"
        by (auto simp add: resolveStep_def rankIndex_def)
      from True c "1.IH"(2) [OF True refl refl] show ?thesis
        by (subst trickWinnerLoop.simps) (auto simp add: d st Let_def)
    qed
  next
    case False
    then show ?thesis
      by (subst trickWinnerLoop.simps) simp
  qed
qed

lemma foldl_resolveStep_props:
  "(foldl (resolveStep ls) w es = w \<or>
      (foldl (resolveStep ls) w es \<in> set es \<and> suit (snd (foldl (resolveStep ls) w es)) = ls \<and>
       rankIndex (snd w) < rankIndex (snd (foldl (resolveStep ls) w es)))) \<and>
   rankIndex (snd w) \<le> rankIndex (snd (foldl (resolveStep ls) w es)) \<and>
   (\<forall>e \<in> set es. suit (snd e) = ls \<longrightarrow> rankIndex (snd e) \<le> rankIndex (snd (foldl (resolveStep ls) w es)))"
proof (induction es arbitrary: w)
  case Nil
  then show ?case by simp
next
  case (Cons e es)
  from Cons.IH [of "resolveStep ls w e"] show ?case
    by (auto simp: resolveStep_def split: if_splits)
qed

lemma foldl_resolveStep_first:
  "\<forall>e \<in> set es. suit (snd e) = ls \<longrightarrow> rankIndex (snd e) \<le> rankIndex (snd w) \<Longrightarrow>
   foldl (resolveStep ls) w es = w"
  by (induction es arbitrary: w) (auto simp: resolveStep_def)

text \<open>
  C4. On a completed trick (four entries, leading suit set) the resolver returns the winner
  the specification describes: it starts as the first entry and is replaced by each later
  entry of the leading suit whose rank is strictly higher than the current winning card.
  So the winner is an entry of the trick; if it is not the first entry it is a later entry
  of the leading suit that outranks the first; no later entry of the leading suit
  outranks it; and it is the first entry when no later entry of the leading suit outranks
  that one. An entry off the leading suit therefore never takes over.
\<close>

theorem calculateTrickWinner_resolves:
  assumes "length (cards t) = 4" and "leadingSuit t = Some ls"
  shows "\<exists>w. calculateTrickWinner t = Inr w \<and> w = resolveTrick_spec ls (cards t) \<and>
           w \<in> set (cards t) \<and>
           (w \<noteq> hd (cards t) \<longrightarrow>
              w \<in> set (tl (cards t)) \<and> suit (snd w) = ls \<and>
              rankIndex (snd (hd (cards t))) < rankIndex (snd w)) \<and>
           (\<forall>e \<in> set (tl (cards t)). suit (snd e) = ls \<longrightarrow> rankIndex (snd e) \<le> rankIndex (snd w)) \<and>
           ((\<forall>e \<in> set (tl (cards t)). suit (snd e) = ls \<longrightarrow>
                rankIndex (snd e) \<le> rankIndex (snd (hd (cards t)))) \<longrightarrow> w = hd (cards t))"
proof -
  from assms(1) obtain f es where cs: "cards t = f # es"
    by (cases "cards t") auto
  have eq: "calculateTrickWinner t = Inr (foldl (resolveStep ls) f es)"
    by (simp add: calculateTrickWinner_def assms(2) cs trickWinnerLoop_foldl)
  have sp: "resolveTrick_spec ls (f # es) = foldl (resolveStep ls) f es"
    by (simp add: resolveTrick_spec_def)
  from foldl_resolveStep_props [of ls f es] foldl_resolveStep_first [of es ls f]
  show ?thesis
    by (auto simp: eq sp cs)
qed


theorem calculateTrickWinner_resolves_witness:
  "length (cards scenario4Trick) = 4 \<and> leadingSuit scenario4Trick = Some Clubs \<and>
   calculateTrickWinner scenario4Trick = Inr (3, mkCard Clubs Ace)"
proof -
  have h1: "length (cards scenario4Trick) = 4"
    by (simp add: scenario4Trick_def)
  have h2: "leadingSuit scenario4Trick = Some Clubs"
    by (simp add: scenario4Trick_def)
  have "resolveTrick_spec Clubs (cards scenario4Trick) = (3, mkCard Clubs Ace)"
    by (simp add: scenario4Trick_def resolveTrick_spec_def resolveStep_def rankIndex_def
        rankValues_def)
  with calculateTrickWinner_resolves [OF h1 h2] h1 h2 show ?thesis
    by auto
qed

text \<open>
  C7, as stated, fails: a trick with one entry and its leading suit set is resolved, the
  resolver returning that entry.
\<close>

theorem calculateTrickWinner_short_trick_counterexample:
  "length (cards oneCardTrick) < 4 \<and>
   calculateTrickWinner oneCardTrick = Inr (0, mkCard Clubs Nine)"
  by (simp add: oneCardTrick_def calculateTrickWinner_def trickWinnerLoop.simps)

text \<open>
  C7, amended. The resolver throws exactly on a trick with no entry or with an unset
  leading suit; on every other trick, also one with one to three entries, it returns a
  winner.
\<close>

theorem calculateTrickWinner_fails_iff:
  "(cards t = [] \<or> leadingSuit t = None \<longrightarrow> calculateTrickWinner t = Inl EmptyTrick) \<and>
   (cards t \<noteq> [] \<and> leadingSuit t \<noteq> None \<longrightarrow> (\<exists>w. calculateTrickWinner t = Inr w))"
  by (auto simp: calculateTrickWinner_def split: option.splits list.splits)

theorem calculateTrickWinner_fails_iff_witness:
  "(cards createEmptyTrick = [] \<or> leadingSuit createEmptyTrick = None) \<and>
   calculateTrickWinner createEmptyTrick = Inl EmptyTrick \<and>
   cards oneCardTrick \<noteq> [] \<and> leadingSuit oneCardTrick \<noteq> None \<and>
   (\<exists>w. calculateTrickWinner oneCardTrick = Inr w)"
  using calculateTrickWinner_fails_iff [of createEmptyTrick]
    calculateTrickWinner_fails_iff [of oneCardTrick]
  by (simp add: createEmptyTrick_def oneCardTrick_def)

section \<open>Game over: the announced winner\<close>

lemma those_map_Some:
  "set ks \<subseteq> fst ` set ps \<Longrightarrow> \<exists>ys. those (map (\<lambda>k. map_option (f k) (map_of ps k)) ks) = Some ys"
proof (induction ks)
  case Nil
  then show ?case by simp
next
  case (Cons k ks)
  then obtain ys where ys: "those (map (\<lambda>k. map_option (f k) (map_of ps k)) ks) = Some ys"
    by auto
  from Cons.prems have "k \<in> fst ` set ps" by simp
  then obtain v where "map_of ps k = Some v"
    by (metis domD dom_map_of_conv_image_fst)
  with ys show ?case by simp
qed

lemma getAllPlayerInfo_ok:
  "set (playerOrder g) \<subseteq> fst ` set (players g) \<Longrightarrow> \<exists>infos. getAllPlayerInfo g = Inr infos"
  using those_map_Some [of "playerOrder g" "players g" getPlayerInfo]
  by (auto simp: getAllPlayerInfo_def getPlayer_def)

lemma lowestLoop_acc:
  "\<exists>info'. lowestLoop ps (Some info, Some (info_score info)) = (Some info', Some (info_score info')) \<and>
     ((info' = info \<and> (\<forall>(k, p) \<in> set ps. info_score info \<le> score p)) \<or>
      (\<exists>pre k p post. ps = pre @ (k, p) # post \<and> info' = getPlayerInfo k p \<and>
          score p < info_score info \<and>
          (\<forall>(k', p') \<in> set pre. score p < score p') \<and>
          (\<forall>(k', p') \<in> set post. score p \<le> score p')))"
proof (induction ps arbitrary: info)
  case Nil
  then show ?case by simp
next
  case (Cons kp ps)
  obtain k p where kp: "kp = (k, p)" by (cases kp)
  show ?case
  proof (cases "score p < info_score info")
    case True
    let ?i = "getPlayerInfo k p"
    have sc: "info_score ?i = score p" by (simp add: getPlayerInfo_def)
    from Cons.IH [of ?i] obtain info' where
      r: "lowestLoop ps (Some ?i, Some (info_score ?i)) = (Some info', Some (info_score info'))"
      and d: "(info' = ?i \<and> (\<forall>(k, p') \<in> set ps. info_score ?i \<le> score p')) \<or>
        (\<exists>pre k' p' post. ps = pre @ (k', p') # post \<and> info' = getPlayerInfo k' p' \<and>
          score p' < info_score ?i \<and>
          (\<forall>(k'', p'') \<in> set pre. score p' < score p'') \<and>
          (\<forall>(k'', p'') \<in> set post. score p' \<le> score p''))"
      by blast
    have step: "lowestLoop (kp # ps) (Some info, Some (info_score info)) =
        lowestLoop ps (Some ?i, Some (info_score ?i))"
      using True by (simp add: kp sc Let_def)
    from d show ?thesis
    proof
      assume a: "info' = ?i \<and> (\<forall>(k, p') \<in> set ps. info_score ?i \<le> score p')"
      have "kp # ps = [] @ (k, p) # ps" by (simp add: kp)
      with a True sc show ?thesis
        unfolding step r by (intro exI [of _ info'] conjI disjI2 exI [of _ "[]"] exI [of _ k] exI [of _ p] exI [of _ ps]) auto
    next
      assume "\<exists>pre k' p' post. ps = pre @ (k', p') # post \<and> info' = getPlayerInfo k' p' \<and>
          score p' < info_score ?i \<and>
          (\<forall>(k'', p'') \<in> set pre. score p' < score p'') \<and>
          (\<forall>(k'', p'') \<in> set post. score p' \<le> score p'')"
      then obtain pre k' p' post where b: "ps = pre @ (k', p') # post" "info' = getPlayerInfo k' p'"
          "score p' < info_score ?i" "\<forall>(k'', p'') \<in> set pre. score p' < score p''"
          "\<forall>(k'', p'') \<in> set post. score p' \<le> score p''"
        by blast
      have "kp # ps = (kp # pre) @ (k', p') # post" by (simp add: b)
      with b True sc show ?thesis
        unfolding step r
        by (intro exI [of _ info'] conjI disjI2 exI [of _ "kp # pre"] exI [of _ k'] exI [of _ p'] exI [of _ post])
          (auto simp: kp)
    qed
  next
    case False
    from Cons.IH [of info] obtain info' where
      r: "lowestLoop ps (Some info, Some (info_score info)) = (Some info', Some (info_score info'))"
      and d: "(info' = info \<and> (\<forall>(k, p') \<in> set ps. info_score info \<le> score p')) \<or>
        (\<exists>pre k' p' post. ps = pre @ (k', p') # post \<and> info' = getPlayerInfo k' p' \<and>
          score p' < info_score info \<and>
          (\<forall>(k'', p'') \<in> set pre. score p' < score p'') \<and>
          (\<forall>(k'', p'') \<in> set post. score p' \<le> score p''))"
      by blast
    have step: "lowestLoop (kp # ps) (Some info, Some (info_score info)) =
        lowestLoop ps (Some info, Some (info_score info))"
      using False by (simp add: kp getPlayerInfo_def Let_def)
    from d show ?thesis
    proof
      assume a: "info' = info \<and> (\<forall>(k, p') \<in> set ps. info_score info \<le> score p')"
      with False show ?thesis
        unfolding step r by (intro exI [of _ info'] conjI disjI1) (auto simp: kp)
    next
      assume "\<exists>pre k' p' post. ps = pre @ (k', p') # post \<and> info' = getPlayerInfo k' p' \<and>
          score p' < info_score info \<and>
          (\<forall>(k'', p'') \<in> set pre. score p' < score p'') \<and>
          (\<forall>(k'', p'') \<in> set post. score p' \<le> score p'')"
      then obtain pre k' p' post where b: "ps = pre @ (k', p') # post" "info' = getPlayerInfo k' p'"
          "score p' < info_score info" "\<forall>(k'', p'') \<in> set pre. score p' < score p''"
          "\<forall>(k'', p'') \<in> set post. score p' \<le> score p''"
        by blast
      have "kp # ps = (kp # pre) @ (k', p') # post" by (simp add: b)
      with b False show ?thesis
        unfolding step r
        by (intro exI [of _ info'] conjI disjI2 exI [of _ "kp # pre"] exI [of _ k'] exI [of _ p'] exI [of _ post])
          (auto simp: kp)
    qed
  qed
qed

lemma lowestLoop_first_minimum:
  assumes "ps \<noteq> []"
  shows "\<exists>pre k p post. ps = pre @ (k, p) # post \<and>
     fst (lowestLoop ps (None, None)) = Some (getPlayerInfo k p) \<and>
     (\<forall>(k', p') \<in> set pre. score p < score p') \<and>
     (\<forall>(k', p') \<in> set post. score p \<le> score p')"
proof -
  from assms obtain k0 p0 ps' where ps: "ps = (k0, p0) # ps'"
    by (cases ps) auto
  let ?i = "getPlayerInfo k0 p0"
  have sc: "info_score ?i = score p0" by (simp add: getPlayerInfo_def)
  have step: "lowestLoop ps (None, None) = lowestLoop ps' (Some ?i, Some (info_score ?i))"
    by (simp add: ps Let_def)
  from lowestLoop_acc [of ps' ?i] obtain info' where
    r: "lowestLoop ps' (Some ?i, Some (info_score ?i)) = (Some info', Some (info_score info'))"
    and d: "(info' = ?i \<and> (\<forall>(k, p') \<in> set ps'. info_score ?i \<le> score p')) \<or>
        (\<exists>pre k' p' post. ps' = pre @ (k', p') # post \<and> info' = getPlayerInfo k' p' \<and>
          score p' < info_score ?i \<and>
          (\<forall>(k'', p'') \<in> set pre. score p' < score p'') \<and>
          (\<forall>(k'', p'') \<in> set post. score p' \<le> score p''))"
    by blast
  from d show ?thesis
  proof
    assume a: "info' = ?i \<and> (\<forall>(k, p') \<in> set ps'. info_score ?i \<le> score p')"
    have "ps = [] @ (k0, p0) # ps'" by (simp add: ps)
    with a sc show ?thesis
      unfolding step r
      by (intro exI [of _ "[]"] exI [of _ k0] exI [of _ p0] exI [of _ ps']) auto
  next
    assume "\<exists>pre k' p' post. ps' = pre @ (k', p') # post \<and> info' = getPlayerInfo k' p' \<and>
          score p' < info_score ?i \<and>
          (\<forall>(k'', p'') \<in> set pre. score p' < score p'') \<and>
          (\<forall>(k'', p'') \<in> set post. score p' \<le> score p'')"
    then obtain pre k' p' post where b: "ps' = pre @ (k', p') # post" "info' = getPlayerInfo k' p'"
        "score p' < info_score ?i" "\<forall>(k'', p'') \<in> set pre. score p' < score p''"
        "\<forall>(k'', p'') \<in> set post. score p' \<le> score p''"
      by blast
    have "ps = ((k0, p0) # pre) @ (k', p') # post" by (simp add: ps b)
    with b sc show ?thesis
      unfolding step r
      by (intro exI [of _ "(k0, p0) # pre"] exI [of _ k'] exI [of _ p'] exI [of _ post]) auto
  qed
qed

text \<open>
  C9, as stated, fails: with totals 100, 50, 50 and 70 the seats 1 and 2 are tied at the
  minimum, and only seat 1 is announced.
\<close>

theorem endGame_tie_counterexample:
  "map (\<lambda>(k, p). (k, score p)) (players tiedGame) = [(0, 100), (1, 50), (2, 50), (3, 70)] \<and>
   announcedWinners (fst (snd (endGame tiedGame))) = [1]"
  by (simp add: tiedGame_def endGame_def getAllPlayerInfo_def getPlayer_def getPlayerInfo_def
      mkPlayer_def announcedWinners_def Let_def)

text \<open>
  C9, amended. When the game ends, exactly one seat is announced as winner: the first
  seat, in the iteration order of the map of players, whose total is the minimum. Every
  seat before it has a strictly higher total; a later seat with the same total is not
  announced.
\<close>

theorem endGame_announces_first_lowest:
  assumes "players g \<noteq> []" and "set (playerOrder g) \<subseteq> fst ` set (players g)"
  shows "\<exists>pre k p post. players g = pre @ (k, p) # post \<and>
     (\<forall>(k', p') \<in> set pre. score p < score p') \<and>
     (\<forall>(k', p') \<in> set post. score p \<le> score p') \<and>
     fst (snd (endGame g)) = [Broadcast (GameOverMsg (Some (getPlayerInfo k p))), OnGameEnd] \<and>
     announcedWinners (fst (snd (endGame g))) = [k]"
proof -
  from getAllPlayerInfo_ok [of "g\<lparr>phase := GameOver\<rparr>"] assms(2)
  obtain infos where i: "getAllPlayerInfo (g\<lparr>phase := GameOver\<rparr>) = Inr infos"
    by auto
  from lowestLoop_first_minimum [OF assms(1)] obtain pre k p post where
    a: "players g = pre @ (k, p) # post"
       "fst (lowestLoop (players g) (None, None)) = Some (getPlayerInfo k p)"
       "\<forall>(k', p') \<in> set pre. score p < score p'"
       "\<forall>(k', p') \<in> set post. score p \<le> score p'"
    by blast
  have "fst (snd (endGame g)) = [Broadcast (GameOverMsg (Some (getPlayerInfo k p))), OnGameEnd]"
    by (simp add: endGame_def Let_def i a(2))
  moreover have "announcedWinners [Broadcast (GameOverMsg (Some (getPlayerInfo k p))), OnGameEnd] = [k]"
    by (simp add: announcedWinners_def getPlayerInfo_def)
  ultimately show ?thesis
    using a by (intro exI [of _ pre] exI [of _ k] exI [of _ p] exI [of _ post]) simp
qed

theorem endGame_announces_first_lowest_witness:
  "players tiedGame \<noteq> [] \<and> set (playerOrder tiedGame) \<subseteq> fst ` set (players tiedGame) \<and>
   fst (snd (endGame tiedGame)) =
     [Broadcast (GameOverMsg (Some \<lparr>info_id = 1, info_score = 50, info_roundScore = 0\<rparr>)), OnGameEnd]"
proof -
  have h1: "players tiedGame \<noteq> []" by (simp add: tiedGame_def)
  have h2: "set (playerOrder tiedGame) \<subseteq> fst ` set (players tiedGame)"
    by (simp add: tiedGame_def)
  from endGame_announces_first_lowest [OF h1 h2] obtain pre k p post where
    a: "players tiedGame = pre @ (k, p) # post"
       "\<forall>(k', p') \<in> set pre. score p < score p'"
       "\<forall>(k', p') \<in> set post. score p \<le> score p'"
       "fst (snd (endGame tiedGame)) = [Broadcast (GameOverMsg (Some (getPlayerInfo k p))), OnGameEnd]"
    by blast
  have "fst (snd (endGame tiedGame)) =
     [Broadcast (GameOverMsg (Some \<lparr>info_id = 1, info_score = 50, info_roundScore = 0\<rparr>)), OnGameEnd]"
    by (simp add: tiedGame_def endGame_def getAllPlayerInfo_def getPlayer_def getPlayerInfo_def
      mkPlayer_def Let_def)
  with h1 h2 show ?thesis by simp
qed


section \<open>Round scoring\<close>




lemma players_endRound:
  "players (fst (endRound g)) =
     (case findShooter (players g) of
        Some sid \<Rightarrow> map (\<lambda>(k, p). if k = sid then (k, p\<lparr>score := score p + 0\<rparr>)
                                   else (k, p\<lparr>score := score p + 26\<rparr>)) (players g)
      | None \<Rightarrow> map (\<lambda>(k, p). (k, p\<lparr>score := score p + roundScore p\<rparr>)) (players g))"
  by (simp add: endRound_def Let_def split: option.splits sum.splits)







section \<open>Rejected commands\<close>

lemma fst_broadcastGameState [simp]: "fst (broadcastGameState g) = g"
  by (simp add: broadcastGameState_def split: list.splits option.splits prod.splits)

lemma fst_notifyCurrentPlayerTurn [simp]: "fst (notifyCurrentPlayerTurn g) = g"
  by (simp add: notifyCurrentPlayerTurn_def split: option.splits)

lemma fst_andThen:
  "fst (andThen r f) = (case snd (snd r) of Some e \<Rightarrow> fst r | None \<Rightarrow> fst (f (fst r)))"
  by (cases r) (auto simp: andThen_def split: option.splits prod.splits)

lemma clean_broadcastGameState: "cleanResult (broadcastGameState g)"
  by (auto simp: cleanResult_def broadcastGameState_def getGameStateForPlayer_def
      getAllPlayerInfo_def internalReason_def isErrorEvent_def list_all_iff
      split: list.splits option.splits prod.splits sum.splits)

lemma clean_notifyCurrentPlayerTurn: "cleanResult (notifyCurrentPlayerTurn g)"
  by (auto simp: cleanResult_def notifyCurrentPlayerTurn_def internalReason_def isErrorEvent_def
      split: option.splits)

lemma clean_endTrick: "cleanResult (endTrick g)"
  by (auto simp: cleanResult_def endTrick_def calculateTrickWinner_def internalReason_def
      isErrorEvent_def Let_def split: option.splits sum.splits list.splits prod.splits)

lemma clean_andThen:
  "cleanResult r \<Longrightarrow> (\<And>g. cleanResult (f g)) \<Longrightarrow> cleanResult (andThen r f)"
proof -
  assume r: "cleanResult r" and f: "\<And>g. cleanResult (f g)"
  obtain g outs e where rr: "r = (g, outs, e)" by (cases r)
  obtain g' outs' e' where ff: "f g = (g', outs', e')" by (cases "f g")
  from f [of g] have "cleanResult (g', outs', e')" by (simp add: ff)
  with r show ?thesis
    by (cases e) (auto simp: rr ff andThen_def cleanResult_def)
qed

lemma passLoop_reason:
  "passLoop d ids is st = (st', Some e) \<Longrightarrow> e = TypeError"
proof (induction "is" arbitrary: st)
  case Nil
  then show ?case by simp
next
  case (Cons i "is")
  obtain ps t where st: "st = (ps, t)" by (cases st)
  from Cons show ?case
    by (auto simp: st split: option.splits)
qed

lemma clean_executePassing: "cleanResult (executePassing g)"
proof (cases "passingDirection g")
  case None
  then show ?thesis by (simp add: executePassing_def cleanResult_def)
next
  case (Some d)
  show ?thesis
  proof (cases "d = Hold")
    case True
    with Some show ?thesis by (simp add: executePassing_def cleanResult_def)
  next
    case False
    obtain ps t e where pl:
      "passLoop d (playerOrder g) [0 ..< length (playerOrder g)] (players g, Map.empty) = ((ps, t), e)"
      by (metis prod.exhaust)
    have ex: "executePassing g =
        (case passLoop d (playerOrder g) [0 ..< length (playerOrder g)] (players g, Map.empty) of
             ((ps, tempReceived), Some e) \<Rightarrow> (g\<lparr>players := ps\<rparr>, [], Some e)
           | ((ps, tempReceived), None) \<Rightarrow>
               (let ps' = map (\<lambda>(k, p). (k, addReceivedCardsToHand
                                   (p\<lparr>receivedCards := Some (receiveFrom tempReceived k)\<rparr>))) ps;
                    outs = map (\<lambda>(k, p). SendTo k (CardsPassed (receivedCards p))) ps';
                    g1 = g\<lparr>players := ps'\<rparr>;
                    g2 = g1\<lparr>phase := PlayingTrick\<rparr>;
                    g3 = g2\<lparr>currentPlayerIndex := findPlayerWithTwoOfClubs g2\<rparr>
                in andThen (andThen (g3, outs, None) broadcastGameState) notifyCurrentPlayerTurn))"
      using Some False by (cases d) (simp_all add: executePassing_def)
    show ?thesis
    proof (cases e)
      case None
      show ?thesis
        unfolding ex pl None
        apply (simp only: Let_def prod.case option.case)
        apply (intro clean_andThen clean_broadcastGameState clean_notifyCurrentPlayerTurn)
        apply (auto simp: cleanResult_def list_all_iff isErrorEvent_def)
        done
    next
      case (Some e')
      with pl passLoop_reason have "e' = TypeError" by blast
      then show ?thesis
        unfolding ex pl Some by (simp add: cleanResult_def internalReason_def)
    qed
  qed
qed

lemma handlePassCards_accept:
  assumes "length cs = PASS_COUNT" and "cardsToPass p = None"
    and "list_all (\<lambda>c. c \<in> set (hand p)) cs"
  shows "handlePassCards g pid p cs =
     (case getGameStateForPlayer (stagePass g pid cs) pid of
        Some e \<Rightarrow> (stagePass g pid cs, [], Some e)
      | None \<Rightarrow>
          andThen (stagePass g pid cs, [SendTo pid GameStateUpdate], None)
            (\<lambda>g1. if list_all (\<lambda>(k, p). cardsToPass p \<noteq> None) (players g1)
                  then executePassing g1
                  else broadcastGameState g1))"
  using assms unfolding handlePassCards_def stagePass_def Let_def by simp

lemma handlePassCards_reject:
  assumes "length cs \<noteq> PASS_COUNT \<or> cardsToPass p \<noteq> None \<or>
    \<not> list_all (\<lambda>c. c \<in> set (hand p)) cs"
  shows "\<exists>e. handlePassCards g pid p cs = (g, [], Some e) \<and> \<not> internalReason e"
  using assms by (auto simp: handlePassCards_def internalReason_def)

lemma handlePassCards_cases:
  "(\<exists>e. handlePassCards g pid p cs = (g, [], Some e) \<and> \<not> internalReason e) \<or>
   cleanResult (handlePassCards g pid p cs)"
proof (cases "length cs \<noteq> PASS_COUNT \<or> cardsToPass p \<noteq> None \<or>
    \<not> list_all (\<lambda>c. c \<in> set (hand p)) cs")
  case True
  then show ?thesis using handlePassCards_reject by blast
next
  case False
  then have eq: "handlePassCards g pid p cs =
     (case getGameStateForPlayer (stagePass g pid cs) pid of
        Some e \<Rightarrow> (stagePass g pid cs, [], Some e)
      | None \<Rightarrow>
          andThen (stagePass g pid cs, [SendTo pid GameStateUpdate], None)
            (\<lambda>g1. if list_all (\<lambda>(k, p). cardsToPass p \<noteq> None) (players g1)
                  then executePassing g1
                  else broadcastGameState g1))"
    using handlePassCards_accept by blast
  have c1: "cleanResult (stagePass g pid cs, [SendTo pid GameStateUpdate], None)"
    by (simp add: cleanResult_def isErrorEvent_def)
  have c2: "\<And>g1. cleanResult (if list_all (\<lambda>(k, p). cardsToPass p \<noteq> None) (players g1)
                        then executePassing g1 else broadcastGameState g1)"
    by (simp add: clean_executePassing clean_broadcastGameState)
  show ?thesis
  proof (cases "getGameStateForPlayer (stagePass g pid cs) pid")
    case None
    show ?thesis
      unfolding eq None option.case by (intro disjI2 clean_andThen c1 c2)
  next
    case (Some e)
    then have "e = TypeError"
      by (auto simp: getGameStateForPlayer_def getAllPlayerInfo_def split: sum.splits option.splits)
    then show ?thesis
      unfolding eq Some option.case by (simp add: cleanResult_def internalReason_def)
  qed
qed

lemma handlePlayCard_cases:
  "(\<exists>r. handlePlayCard g pid p c = (g, [SendTo pid (ErrorMsg r)], None) \<and> \<not> internalReason r) \<or>
   (isValidPlay g p c \<and> cleanResult (handlePlayCard g pid p c))"
proof (cases "isValidPlay_reason g p c")
  case (Some r)
  have "\<not> internalReason r"
    using Some by (auto simp: isValidPlay_reason_def internalReason_def Let_def split: if_splits)
  with Some show ?thesis by (simp add: handlePlayCard_def)
next
  case None
  show ?thesis
  proof (cases "findIndex (\<lambda>h. suit h = suit c \<and> rank h = rank c) (hand p)")
    case n: None
    with None show ?thesis by (simp add: handlePlayCard_def internalReason_def)
  next
    case (Some i)
    with None show ?thesis
      by (auto simp: handlePlayCard_def isValidPlay_def Let_def
          intro!: clean_andThen clean_broadcastGameState clean_endTrick clean_notifyCurrentPlayerTurn)
  qed
qed


lemma clean_no_error:
  "cleanResult (g', outs, e) \<Longrightarrow> SendTo q (ErrorMsg r) \<notin> set outs"
  by (auto simp: cleanResult_def list_all_iff isErrorEvent_def)

lemma clean_thrown:
  "cleanResult (g', outs, Some e) \<Longrightarrow> e = TypeError \<or> e = EmptyTrick"
  by (simp add: cleanResult_def internalReason_def)

lemma catch_reject:
  assumes "(case (g, [], Some e) of
              (g', outs, Some e) \<Rightarrow> (g', outs @ [SendTo pid (ErrorMsg e)])
            | (g', outs, None) \<Rightarrow> (g', outs)) = (g', outs)"
    and "SendTo q (ErrorMsg r) \<in> set outs"
  shows "g' = g \<and> outs = [SendTo pid (ErrorMsg r)]"
  using assms by auto

lemma catch_clean:
  assumes "cleanResult res"
    and "(case res of
              (g', outs, Some e) \<Rightarrow> (g', outs @ [SendTo pid (ErrorMsg e)])
            | (g', outs, None) \<Rightarrow> (g', outs)) = (g', outs)"
    and "SendTo q (ErrorMsg r) \<in> set outs"
  shows "r = TypeError \<or> r = EmptyTrick"
proof -
  obtain g1 o1 e1 where res: "res = (g1, o1, e1)" by (cases res)
  from assms(1) have n: "SendTo q (ErrorMsg r) \<notin> set o1"
    unfolding res by (rule clean_no_error)
  show ?thesis
  proof (cases e1)
    case None
    with assms(2,3) n show ?thesis by (simp add: res)
  next
    case (Some e)
    with assms(1) have "e = TypeError \<or> e = EmptyTrick"
      unfolding res by (simp add: clean_thrown)
    with assms(2,3) n Some show ?thesis by (auto simp: res)
  qed
qed

lemma handleMessage_error_unchanged:
  assumes hm: "handleMessage g pid m = (g', outs)"
    and ev: "SendTo q (ErrorMsg r) \<in> set outs"
    and r: "r \<noteq> TypeError" "r \<noteq> EmptyTrick"
  shows "g' = g \<and> outs = [SendTo pid (ErrorMsg r)]"
proof (cases "getPlayer g pid")
  case None
  with hm ev show ?thesis by (simp add: handleMessage_def)
next
  case (Some p)
  define res where "res = (case m of
                      SelectCardsToPass cs \<Rightarrow>
                        if phase g = Passing then handlePassCards g pid p cs
                        else (g, [], Some CannotPassNow)
                    | PlayCard c \<Rightarrow>
                        if phase g = PlayingTrick \<and> getCurrentPlayerId g = Some pid
                        then handlePlayCard g pid p c
                        else (g, [], Some NotYourTurn)
                    | OtherMsg \<Rightarrow> (g, [], None))"
  have c: "(case res of
              (g', outs, Some e) \<Rightarrow> (g', outs @ [SendTo pid (ErrorMsg e)])
            | (g', outs, None) \<Rightarrow> (g', outs)) = (g', outs)"
    using hm Some unfolding handleMessage_def res_def Let_def by simp
  have "(\<exists>e. res = (g, [], Some e)) \<or> (\<exists>r. res = (g, [SendTo pid (ErrorMsg r)], None)) \<or>
      cleanResult res"
  proof (cases m)
    case (SelectCardsToPass cs)
    then show ?thesis
      using handlePassCards_cases [of g pid p cs] by (auto simp: res_def)
  next
    case (PlayCard c)
    then show ?thesis
      using handlePlayCard_cases [of g pid p c] by (auto simp: res_def)
  next
    case OtherMsg
    then show ?thesis by (simp add: res_def cleanResult_def)
  qed
  then consider (a) e where "res = (g, [], Some e)"
    | (b) r' where "res = (g, [SendTo pid (ErrorMsg r')], None)"
    | (c) "cleanResult res"
    by blast
  then show ?thesis
  proof cases
    case a
    with c ev show ?thesis by auto
  next
    case b
    with c ev show ?thesis by auto
  next
    case c
    from catch_clean [OF c \<open>(case res of
              (g', outs, Some e) \<Rightarrow> (g', outs @ [SendTo pid (ErrorMsg e)])
            | (g', outs, None) \<Rightarrow> (g', outs)) = (g', outs)\<close> ev] r
    show ?thesis by blast
  qed
qed

text \<open>
  C8. Whenever \<^verbatim>\<open>handleMessage\<close> reports an error with a user-facing reason (any reason
  but the two of an internal contract violation), the state is the one before the command
  and the only event is that error, sent to the sender of the command. The rejections of
  the specification are of this kind: a pass selection outside the passing phase, a play outside
  the playing phase or out of turn, a play the validator refuses, and a selection of the
  wrong size, resubmitted, or naming a card that is not in the hand.
\<close>

theorem rejected_command_leaves_state:
  assumes "getPlayer g pid = Some p"
  shows "(\<forall>m g' outs q r. handleMessage g pid m = (g', outs) \<and> SendTo q (ErrorMsg r) \<in> set outs \<and>
            r \<noteq> TypeError \<and> r \<noteq> EmptyTrick \<longrightarrow> g' = g \<and> outs = [SendTo pid (ErrorMsg r)]) \<and>
         (phase g \<noteq> Passing \<longrightarrow>
            handleMessage g pid (SelectCardsToPass cs) = (g, [SendTo pid (ErrorMsg CannotPassNow)])) \<and>
         (\<not> (phase g = PlayingTrick \<and> getCurrentPlayerId g = Some pid) \<longrightarrow>
            handleMessage g pid (PlayCard c) = (g, [SendTo pid (ErrorMsg NotYourTurn)])) \<and>
         (phase g = PlayingTrick \<and> getCurrentPlayerId g = Some pid \<and> \<not> isValidPlay g p c \<longrightarrow>
            (\<exists>r. isValidPlay_reason g p c = Some r \<and>
                 handleMessage g pid (PlayCard c) = (g, [SendTo pid (ErrorMsg r)]))) \<and>
         (phase g = Passing \<and>
            (length cs \<noteq> 3 \<or> cardsToPass p \<noteq> None \<or> \<not> set cs \<subseteq> set (hand p)) \<longrightarrow>
            (\<exists>r. handleMessage g pid (SelectCardsToPass cs) = (g, [SendTo pid (ErrorMsg r)])))"
proof (intro conjI)
  show "\<forall>m g' outs q r. handleMessage g pid m = (g', outs) \<and> SendTo q (ErrorMsg r) \<in> set outs \<and>
            r \<noteq> TypeError \<and> r \<noteq> EmptyTrick \<longrightarrow> g' = g \<and> outs = [SendTo pid (ErrorMsg r)]"
    using handleMessage_error_unchanged by blast
  show "phase g \<noteq> Passing \<longrightarrow>
            handleMessage g pid (SelectCardsToPass cs) = (g, [SendTo pid (ErrorMsg CannotPassNow)])"
    using assms by (simp add: handleMessage_def)
  show "\<not> (phase g = PlayingTrick \<and> getCurrentPlayerId g = Some pid) \<longrightarrow>
            handleMessage g pid (PlayCard c) = (g, [SendTo pid (ErrorMsg NotYourTurn)])"
    using assms by (simp add: handleMessage_def)
  show "phase g = PlayingTrick \<and> getCurrentPlayerId g = Some pid \<and> \<not> isValidPlay g p c \<longrightarrow>
            (\<exists>r. isValidPlay_reason g p c = Some r \<and>
                 handleMessage g pid (PlayCard c) = (g, [SendTo pid (ErrorMsg r)]))"
    using assms by (auto simp: handleMessage_def isValidPlay_def handlePlayCard_def)
  show "phase g = Passing \<and>
            (length cs \<noteq> 3 \<or> cardsToPass p \<noteq> None \<or> \<not> set cs \<subseteq> set (hand p)) \<longrightarrow>
            (\<exists>r. handleMessage g pid (SelectCardsToPass cs) = (g, [SendTo pid (ErrorMsg r)]))"
  proof
    assume a: "phase g = Passing \<and>
            (length cs \<noteq> 3 \<or> cardsToPass p \<noteq> None \<or> \<not> set cs \<subseteq> set (hand p))"
    then have "length cs \<noteq> PASS_COUNT \<or> cardsToPass p \<noteq> None \<or>
        \<not> list_all (\<lambda>c. c \<in> set (hand p)) cs"
      by (auto simp: PASS_COUNT_def list_all_iff)
    from handlePassCards_reject [OF this, of g pid] obtain e where
      "handlePassCards g pid p cs = (g, [], Some e)" by blast
    with a assms show "\<exists>r. handleMessage g pid (SelectCardsToPass cs) = (g, [SendTo pid (ErrorMsg r)])"
      by (simp add: handleMessage_def)
  qed
qed

theorem rejected_command_leaves_state_witness:
  "getPlayer midGame 2 = Some (mkPlayer [mkCard Clubs Seven, mkCard Hearts Two] 0 0) \<and>
   getPlayer midGame 1 = Some (mkPlayer [mkCard Diamonds Three, mkCard Spades Queen] 0 0) \<and>
   handleMessage midGame 2 (PlayCard (mkCard Clubs Seven)) =
     (midGame, [SendTo 2 (ErrorMsg NotYourTurn)]) \<and>
   handleMessage midGame 2 (SelectCardsToPass []) =
     (midGame, [SendTo 2 (ErrorMsg CannotPassNow)]) \<and>
   handleMessage midGame 1 (PlayCard (mkCard Hearts Two)) =
     (midGame, [SendTo 1 (ErrorMsg CardNotInHand)])"
proof -
  have h2: "getPlayer midGame 2 = Some (mkPlayer [mkCard Clubs Seven, mkCard Hearts Two] 0 0)"
    and h1: "getPlayer midGame 1 = Some (mkPlayer [mkCard Diamonds Three, mkCard Spades Queen] 0 0)"
    by (simp_all add: midGame_def getPlayer_def)
  have p: "phase midGame \<noteq> Passing"
    and t2: "\<not> (phase midGame = PlayingTrick \<and> getCurrentPlayerId midGame = Some 2)"
    and t1: "phase midGame = PlayingTrick \<and> getCurrentPlayerId midGame = Some 1"
    by (simp_all add: midGame_def getCurrentPlayerId_def)
  have r: "isValidPlay_reason midGame (mkPlayer [mkCard Diamonds Three, mkCard Spades Queen] 0 0)
      (mkCard Hearts Two) = Some CardNotInHand"
    by (simp add: isValidPlay_reason_def mkPlayer_def)
  then have v: "\<not> isValidPlay midGame (mkPlayer [mkCard Diamonds Three, mkCard Spades Queen] 0 0)
      (mkCard Hearts Two)"
    by (simp add: isValidPlay_def)
  from rejected_command_leaves_state [OF h1, of "[]" "mkCard Hearts Two"] t1 v r
  have "handleMessage midGame 1 (PlayCard (mkCard Hearts Two)) =
     (midGame, [SendTo 1 (ErrorMsg CardNotInHand)])"
    by auto
  with rejected_command_leaves_state [OF h2, of "[]" "mkCard Clubs Seven"] p t2 h2 h1
  show ?thesis by blast
qed

section \<open>Breaking hearts\<close>

lemma findIndex_ex: "list_ex P xs \<Longrightarrow> \<exists>i. findIndex P xs = Some i"
  by (induction xs) auto

lemma isValidPlay_in_hand:
  "isValidPlay g p c \<Longrightarrow> list_ex (\<lambda>h. suit h = suit c \<and> rank h = rank c) (hand p)"
  by (auto simp: isValidPlay_def isValidPlay_reason_def Let_def split: if_splits)

lemma heartsBroken_endTrick: "heartsBroken (fst (endTrick g)) = heartsBroken g"
  by (simp add: endTrick_def Let_def split: sum.splits prod.splits option.splits)

lemma heartsBroken_after_broadcast_endTrick:
  "heartsBroken (fst (andThen (broadcastGameState g) endTrick)) = heartsBroken g"
  by (simp add: fst_andThen heartsBroken_endTrick split: option.splits)

lemma fst_after_broadcast_notify:
  "fst (andThen (broadcastGameState g) notifyCurrentPlayerTurn) = g"
  by (simp add: fst_andThen split: option.splits)

lemma heartsBroken_handlePlayCard:
  assumes "isValidPlay g p c"
  shows "heartsBroken (fst (handlePlayCard g pid p c)) \<longleftrightarrow> heartsBroken g \<or> suit c = Hearts"
proof -
  from assms have n: "isValidPlay_reason g p c = None" by (simp add: isValidPlay_def)
  from findIndex_ex [OF isValidPlay_in_hand [OF assms]] obtain i where
    i: "findIndex (\<lambda>h. suit h = suit c \<and> rank h = rank c) (hand p) = Some i" by blast
  show ?thesis
    unfolding handlePlayCard_def n i option.case Let_def
    by (auto simp: heartsBroken_after_broadcast_endTrick fst_after_broadcast_notify)
qed

text \<open>
  C10. After an accepted play the hearts-broken flag holds exactly if it held before or
  the card played is a heart; so the queen of spades leaves the flag as it was.
\<close>

theorem heartsBroken_after_play:
  assumes "getPlayer g pid = Some p" and "phase g = PlayingTrick"
    and "getCurrentPlayerId g = Some pid" and "isValidPlay g p c"
  shows "(heartsBroken (fst (handleMessage g pid (PlayCard c))) \<longleftrightarrow>
            heartsBroken g \<or> suit c = Hearts) \<and>
         (isQueenOfSpades c \<longrightarrow>
            heartsBroken (fst (handleMessage g pid (PlayCard c))) = heartsBroken g)"
proof -
  have "fst (handleMessage g pid (PlayCard c)) = fst (handlePlayCard g pid p c)"
    using assms(1-3) by (simp add: handleMessage_def split: prod.splits option.splits)
  with heartsBroken_handlePlayCard [OF assms(4), of pid] show ?thesis
    by (auto simp: isQueenOfSpades_def)
qed

theorem heartsBroken_after_play_witness:
  "getPlayer midGame 1 = Some (mkPlayer [mkCard Diamonds Three, mkCard Spades Queen] 0 0) \<and>
   phase midGame = PlayingTrick \<and> getCurrentPlayerId midGame = Some 1 \<and>
   isValidPlay midGame (mkPlayer [mkCard Diamonds Three, mkCard Spades Queen] 0 0)
     (mkCard Spades Queen) \<and>
   \<not> heartsBroken midGame \<and>
   \<not> heartsBroken (fst (handleMessage midGame 1 (PlayCard (mkCard Spades Queen))))"
proof -
  have h1: "getPlayer midGame 1 = Some (mkPlayer [mkCard Diamonds Three, mkCard Spades Queen] 0 0)"
    by (simp add: midGame_def getPlayer_def)
  have h2: "phase midGame = PlayingTrick" and h3: "getCurrentPlayerId midGame = Some 1"
    and h5: "\<not> heartsBroken midGame"
    by (simp_all add: midGame_def getCurrentPlayerId_def)
  have h4: "isValidPlay midGame (mkPlayer [mkCard Diamonds Three, mkCard Spades Queen] 0 0)
     (mkCard Spades Queen)"
    by (simp add: isValidPlay_def isValidPlay_reason_def mkPlayer_def midGame_def isFirstTrick_def
        getPlayer_def getCardValue_def)
  from heartsBroken_after_play [OF h1 h2 h3 h4] h1 h2 h3 h4 h5 show ?thesis
    by simp
qed


section \<open>Rules engine: properties\<close>

lemma isValidPlay_first_trick_guard:
  "isFirstTrick g \<Longrightarrow> getCardValue c > 0 \<Longrightarrow>
   \<not> list_all (\<lambda>h. getCardValue h > 0) (hand p) \<Longrightarrow> \<not> isValidPlay g p c"
  by (auto simp: isValidPlay_def isValidPlay_reason_def getCardValue_def Let_def split: if_splits)

text \<open>
  C1. The validator guards the rule with \<^verbatim>\<open>isFirstTrick\<close>, which holds only while the first
  seat of the seating order still has 13 cards. In round 1, dealt and passed as above, seat
  2 leads the 2C, seat 3 and seat 0 follow; all 52 cards are in the hands and the trick, so
  this is the first trick. Seat 1 holds the 2D, which scores nothing, and no club. Its
  queen of spades, worth 13, is accepted and goes into the trick.
\<close>

theorem first_trick_points_accepted:
  "length (allCards firstTrickGame) = 52 \<and>
   phase firstTrickGame = PlayingTrick \<and>
   cards (currentTrick firstTrickGame) =
     [(2, mkCard Clubs Two), (3, mkCard Clubs Three), (0, mkCard Clubs Four)] \<and>
   getCurrentPlayerId firstTrickGame = Some 1 \<and>
   mkCard Diamonds Two \<in> set (seatHand firstTrickGame 1) \<and>
   getCardValue (mkCard Diamonds Two) = 0 \<and>
   getCardValue (mkCard Spades Queen) = 13 \<and>
   \<not> isFirstTrick firstTrickGame \<and>
   seatMayPlay firstTrickGame 1 (mkCard Spades Queen) \<and>
   cards (currentTrick (fst (handleMessage firstTrickGame 1 (PlayCard (mkCard Spades Queen))))) =
     [(2, mkCard Clubs Two), (3, mkCard Clubs Three), (0, mkCard Clubs Four),
      (1, mkCard Spades Queen)]"
  by code_simp

lemma isValidPlay_filter_eq:
  assumes "\<not> openingLead g" and "c \<in> set (hand p)"
    and "cards (currentTrick g) = [] \<longrightarrow> leadingSuit (currentTrick g) = None"
  shows "isValidPlay g p c \<longleftrightarrow>
     \<not> (isFirstTrick g \<and> getCardValue c > 0 \<and> \<not> list_all (\<lambda>h. getCardValue h > 0) (hand p)) \<and>
     \<not> (leadingSuit (currentTrick g) \<noteq> None \<and>
         list_ex (\<lambda>h. Some (suit h) = leadingSuit (currentTrick g)) (hand p) \<and>
         Some (suit c) \<noteq> leadingSuit (currentTrick g)) \<and>
     \<not> (cards (currentTrick g) = [] \<and> suit c = Hearts \<and>
         \<not> (heartsBroken g \<or> list_all (\<lambda>h. suit h = Hearts) (hand p)))"
proof -
  from assms(2) have inh: "list_ex (\<lambda>h. suit h = suit c \<and> rank h = rank c) (hand p)"
    by (auto simp: list_ex_iff)
  from assms(1) have ol: "\<not> (isFirstTrick g \<and> cards (currentTrick g) = [])"
    by (simp add: openingLead_def)
  show ?thesis
    using inh ol assms(3)
    by (auto simp: isValidPlay_def isValidPlay_reason_def Let_def)
qed

lemma ruleFilter_valid:
  assumes "\<not> openingLead g"
    and "cards (currentTrick g) = [] \<longrightarrow> leadingSuit (currentTrick g) = None"
  shows "ruleFilter g (hand p) = filter (isValidPlay g p) (hand p)"
  unfolding ruleFilter_def Let_def
  by (rule filter_cong [OF refl]) (simp add: isValidPlay_filter_eq [OF assms(1) _ assms(2)])

lemma nonFollowFilter_valid:
  assumes "\<not> openingLead g"
    and "cards (currentTrick g) = [] \<longrightarrow> leadingSuit (currentTrick g) = None"
    and "leadingSuit (currentTrick g) \<noteq> None"
    and "\<not> list_ex (\<lambda>h. Some (suit h) = leadingSuit (currentTrick g)) (hand p)"
  shows "nonFollowFilter g (hand p) = filter (isValidPlay g p) (hand p)"
  unfolding nonFollowFilter_def
  apply (rule filter_cong [OF refl])
  using assms(2,3,4) apply (simp add: isValidPlay_filter_eq [OF assms(1) _ assms(2)])
  done

text \<open>
  Away from the opening lead the enumeration is never empty for a non-empty hand: it is
  the list of the cards of the hand that the validator accepts, or the whole hand when the
  validator accepts none. The opening-lead exit returns the 2C alone, or nothing.
\<close>

lemma calculateValidMoves_fallback:
  assumes "hand p \<noteq> []"
  shows "(\<not> openingLead g \<longrightarrow> calculateValidMoves g p \<noteq> []) \<and>
         (\<not> openingLead g \<and>
            (cards (currentTrick g) = [] \<longrightarrow> leadingSuit (currentTrick g) = None) \<longrightarrow>
            calculateValidMoves g p =
              (if filter (isValidPlay g p) (hand p) = [] then hand p
               else filter (isValidPlay g p) (hand p))) \<and>
         (openingLead g \<longrightarrow>
            calculateValidMoves g p =
              (case find isTwoOfClubs (hand p) of Some c \<Rightarrow> [c] | None \<Rightarrow> []) \<and>
            (calculateValidMoves g p \<noteq> [] \<longleftrightarrow> list_ex isTwoOfClubs (hand p)))"
proof (intro conjI impI)
  assume "\<not> openingLead g"
  then show "calculateValidMoves g p \<noteq> []"
    using assms by (auto simp: calculateValidMoves_def openingLead_def Let_def)
next
  assume a: "\<not> openingLead g \<and>
            (cards (currentTrick g) = [] \<longrightarrow> leadingSuit (currentTrick g) = None)"
  then have ol: "\<not> (isFirstTrick g \<and> length (cards (currentTrick g)) = 0)"
    by (simp add: openingLead_def)
  show "calculateValidMoves g p =
              (if filter (isValidPlay g p) (hand p) = [] then hand p
               else filter (isValidPlay g p) (hand p))"
  proof (cases "leadingSuit (currentTrick g) \<noteq> None \<and>
      \<not> list_ex (\<lambda>h. Some (suit h) = leadingSuit (currentTrick g)) (hand p)")
    case True
    with a have "nonFollowFilter g (hand p) = filter (isValidPlay g p) (hand p)"
      by (intro nonFollowFilter_valid) auto
    with True ol show ?thesis
      by (auto simp: calculateValidMoves_def Let_def)
  next
    case False
    from a have "ruleFilter g (hand p) = filter (isValidPlay g p) (hand p)"
      by (intro ruleFilter_valid) auto
    with False ol assms show ?thesis
      by (auto simp: calculateValidMoves_def Let_def)
  qed
next
  assume "openingLead g"
  then show "calculateValidMoves g p =
              (case find isTwoOfClubs (hand p) of Some c \<Rightarrow> [c] | None \<Rightarrow> [])"
    by (simp add: calculateValidMoves_def openingLead_def Let_def)
next
  assume "openingLead g"
  then have "calculateValidMoves g p =
              (case find isTwoOfClubs (hand p) of Some c \<Rightarrow> [c] | None \<Rightarrow> [])"
    by (simp add: calculateValidMoves_def openingLead_def Let_def)
  then show "calculateValidMoves g p \<noteq> [] \<longleftrightarrow> list_ex isTwoOfClubs (hand p)"
    by (auto simp: find_None_iff find_Some_iff list_ex_iff split: option.splits)
qed

text \<open>
  C2. The exit of \<^verbatim>\<open>calculateValidMoves\<close> for the opening lead returns the empty list when
  the hand lacks the 2C, where the other exits fall back to the hand. Take the round in
  which seat 0 selected the 2H three times and so holds 15 cards after the pass. Seat 0
  wins the first trick with the QC and the second with the KD, and then holds 13 cards:
  \<^verbatim>\<open>isFirstTrick\<close> holds again, the trick is empty, the 2C was played in the first trick.
  The seat to play is sent an empty list of moves, its hand of 13 cards being non-empty,
  and the validator refuses every card of that hand.
\<close>

theorem no_valid_moves_for_seat_to_play:
  "phase twoTricksGame = TrickComplete \<and>
   trickWinnerId (currentTrick twoTricksGame) = Some 0 \<and>
   timerEvents twoTricksGame =
     [SendTo 0 GameStateUpdate, SendTo 1 GameStateUpdate, SendTo 2 GameStateUpdate,
      SendTo 3 GameStateUpdate, SendTo 0 (YourTurn [])] \<and>
   phase thirdTrickGame = PlayingTrick \<and>
   getCurrentPlayerId thirdTrickGame = Some 0 \<and>
   length (seatHand thirdTrickGame 0) = 13 \<and>
   seatValidMoves thirdTrickGame 0 = [] \<and>
   list_all (\<lambda>c. handleMessage thirdTrickGame 0 (PlayCard c) =
                    (thirdTrickGame, [SendTo 0 (ErrorMsg MustLeadTwoOfClubs)]))
     (seatHand thirdTrickGame 0)"
  by code_simp

section \<open>Conservation of cards\<close>

lemma allCards_handCards:
  "allCards g = handCards (players g) @ map snd (cards (currentTrick g))"
  by (simp add: allCards_def handCards_def)

lemma card_eqI: "suit h = suit c \<Longrightarrow> rank h = rank c \<Longrightarrow> h = (c :: Card)"
  by simp

lemma handCards_Cons: "handCards ((k, p) # ps) = playerCards p @ handCards ps"
  by (simp add: handCards_def)

lemma mset_handCards_updPlayer:
  "map_of ps pid = Some p \<Longrightarrow>
   mset (handCards (updPlayer pid f ps)) + mset (playerCards p) =
   mset (handCards ps) + mset (playerCards (f p))"
proof (induction ps)
  case Nil
  then show ?case by simp
next
  case (Cons kp ps)
  obtain k q where kp: "kp = (k, q)" by (cases kp)
  show ?case
  proof (cases "k = pid")
    case True
    with Cons.prems show ?thesis by (simp add: kp handCards_Cons)
  next
    case False
    with Cons show ?thesis by (simp add: kp handCards_Cons)
  qed
qed

lemma handCards_updPlayer_same:
  "(\<And>p. playerCards (f p) = playerCards p) \<Longrightarrow> handCards (updPlayer pid f ps) = handCards ps"
  by (induction ps) (auto simp: handCards_Cons)

lemma map_fst_updPlayer [simp]: "map fst (updPlayer pid f ps) = map fst ps"
  by (induction ps) auto

lemma findIndex_Some:
  "findIndex P xs = Some i \<Longrightarrow> i < length xs \<and> P (xs ! i)"
proof (induction xs arbitrary: i)
  case Nil
  then show ?case by simp
next
  case (Cons x xs)
  then show ?case by (cases "P x") auto
qed

lemma mset_spliceOne:
  assumes "i < length xs"
  shows "mset (spliceOne i xs) + {#xs ! i#} = mset xs"
proof -
  have "take i xs @ xs ! i # drop (Suc i) xs = xs"
    using id_take_nth_drop [OF assms] by simp
  then have "mset (take i xs @ xs ! i # drop (Suc i) xs) = mset xs"
    by simp
  then show ?thesis by (simp add: spliceOne_def)
qed

lemma allCards_endTrick: "allCards (fst (endTrick g)) = allCards g"
proof -
  have "\<And>n p. playerCards (p\<lparr>roundScore := n\<rparr>) = playerCards p"
    by (simp add: playerCards_def)
  then have h: "\<And>w n ps. handCards (updPlayer w (\<lambda>p. p\<lparr>roundScore := roundScore p + n\<rparr>) ps) = handCards ps"
    by (intro handCards_updPlayer_same) simp
  show ?thesis
    by (simp add: endTrick_def allCards_handCards Let_def h split: sum.splits prod.splits option.splits)
qed

lemma allCards_after_broadcast_endTrick:
  "allCards (fst (andThen (broadcastGameState g) endTrick)) = allCards g"
  by (simp add: fst_andThen allCards_endTrick split: option.splits)

lemma handlePlayCard_accept:
  assumes "isValidPlay_reason g p c = None"
    and "findIndex (\<lambda>h. suit h = suit c \<and> rank h = rank c) (hand p) = Some i"
  shows "handlePlayCard g pid p c =
     (if length (cards (currentTrick (placeCard g pid c i))) = length (players (placeCard g pid c i))
      then andThen (broadcastGameState (placeCard g pid c i)) endTrick
      else andThen (broadcastGameState
             ((placeCard g pid c i)\<lparr>currentPlayerIndex :=
                 jsRem (currentPlayerIndex (placeCard g pid c i) + 1)
                   (int (length (players (placeCard g pid c i))))\<rparr>))
           notifyCurrentPlayerTurn)"
  unfolding handlePlayCard_def assms option.case placeCard_def Let_def
  by (rule refl)

lemma allCards_placeCard:
  "allCards (placeCard g pid c i) =
     handCards (updPlayer pid (\<lambda>p. p\<lparr>hand := spliceOne i (hand p)\<rparr>) (players g)) @
     map snd (cards (currentTrick g)) @ [c]"
  by (simp add: placeCard_def allCards_handCards Let_def)

lemma mset_allCards_handlePlayCard:
  assumes "getPlayer g pid = Some p"
  shows "mset (allCards (fst (handlePlayCard g pid p c))) = mset (allCards g)"
proof (cases "isValidPlay_reason g p c")
  case (Some r)
  then show ?thesis by (simp add: handlePlayCard_def)
next
  case None
  show ?thesis
  proof (cases "findIndex (\<lambda>h. suit h = suit c \<and> rank h = rank c) (hand p)")
    case n: None
    with None show ?thesis by (simp add: handlePlayCard_def)
  next
    case (Some i)
    from findIndex_Some [OF Some] have i: "i < length (hand p)" and e: "hand p ! i = c"
      by (simp_all add: card_eqI)
    define ps' where "ps' = updPlayer pid (\<lambda>p. p\<lparr>hand := spliceOne i (hand p)\<rparr>) (players g)"
    from assms have m: "map_of (players g) pid = Some p" by (simp add: getPlayer_def)
    have A: "mset (handCards ps') + mset (playerCards p) =
        mset (handCards (players g)) + mset (playerCards (p\<lparr>hand := spliceOne i (hand p)\<rparr>))"
      unfolding ps'_def by (rule mset_handCards_updPlayer [OF m])
    have B: "mset (playerCards p) = mset (playerCards (p\<lparr>hand := spliceOne i (hand p)\<rparr>)) + {#c#}"
      using mset_spliceOne [OF i] e by (simp add: playerCards_def)
    from A have k: "mset (handCards ps') + {#c#} = mset (handCards (players g))"
      unfolding B by simp
    have eq: "allCards (fst (handlePlayCard g pid p c)) = allCards (placeCard g pid c i)"
      unfolding handlePlayCard_accept [OF None Some]
      by (simp add: allCards_after_broadcast_endTrick fst_after_broadcast_notify)
        (simp add: allCards_handCards)
    have "mset (allCards (placeCard g pid c i)) = mset (allCards g)"
      unfolding allCards_placeCard ps'_def [symmetric]
      using k by (simp add: allCards_handCards)
    then show ?thesis
      unfolding eq .
  qed
qed

lemma allCards_endRound: "allCards (fst (endRound g)) = allCards g"
proof -
  have b: "\<And>sid ps. handCards (map (\<lambda>(k, p). if k = sid then (k, p\<lparr>score := score p + 0\<rparr>)
               else (k, p\<lparr>score := score p + 26\<rparr>)) ps) = handCards ps"
    by (induct_tac ps) (auto simp: handCards_def playerCards_def)
  have c: "\<And>ps. handCards (map (\<lambda>(k, p). (k, p\<lparr>score := score p + roundScore p\<rparr>)) ps) = handCards ps"
    by (induct_tac ps) (auto simp: handCards_def playerCards_def)
  show ?thesis
    by (simp add: endRound_def allCards_handCards Let_def b c split: sum.splits option.splits)
qed

lemma mset_allCards_endTrickTimer:
  "mset (allCards (fst (endTrickTimer w g))) =
     (if startsNextTrick w g then mset (allCards g) - mset (map snd (cards (currentTrick g)))
      else mset (allCards g))"
proof (cases "getPlayer g w")
  case None
  then show ?thesis by (simp add: endTrickTimer_def startsNextTrick_def)
next
  case (Some p)
  show ?thesis
  proof (cases "hand p = []")
    case True
    with Some show ?thesis
      by (simp add: endTrickTimer_def startsNextTrick_def allCards_endRound)
  next
    case False
    with Some have "allCards (fst (endTrickTimer w g)) = handCards (players g)"
      by (simp add: endTrickTimer_def fst_after_broadcast_notify Let_def allCards_handCards
          createEmptyTrick_def)
    with Some False show ?thesis
      by (simp add: startsNextTrick_def allCards_handCards)
  qed
qed

lemma mset_insertCard [simp]: "mset (insertCard c xs) = add_mset c (mset xs)"
  by (induction xs) auto

lemma mset_sortHand [simp]: "mset (sortHand xs) = mset xs"
  by (induction xs) auto

lemma passed_card_iff:
  "list_ex (\<lambda>passCard. suit passCard = suit h \<and> rank passCard = rank h) cs \<longleftrightarrow>
   (h :: Card) \<in> set cs"
proof
  assume "list_ex (\<lambda>passCard. suit passCard = suit h \<and> rank passCard = rank h) cs"
  then obtain x where x: "x \<in> set cs" "suit x = suit h" "rank x = rank h"
    by (auto simp: list_ex_iff)
  from x(2,3) have "x = h" by (rule card_eqI)
  with x(1) show "h \<in> set cs" by simp
next
  assume "h \<in> set cs"
  then show "list_ex (\<lambda>passCard. suit passCard = suit h \<and> rank passCard = rank h) cs"
    by (auto simp: list_ex_iff)
qed

lemma mset_filter_staged:
  assumes "distinct (hnd :: Card list)" and "distinct cs" and "set cs \<subseteq> set hnd"
  shows "mset (filter (\<lambda>h. \<not> list_ex (\<lambda>passCard. suit passCard = suit h \<and>
            rank passCard = rank h) cs) hnd) + mset cs = mset hnd"
proof -
  have "distinct (filter (\<lambda>h. h \<in> set cs) hnd)" using assms(1) by simp
  moreover have "set (filter (\<lambda>h. h \<in> set cs) hnd) = set cs" using assms(3) by auto
  ultimately have "mset (filter (\<lambda>h. h \<in> set cs) hnd) = mset cs"
    using assms(2) set_eq_iff_mset_eq_distinct by blast
  moreover have "mset (filter (\<lambda>h. \<not> h \<in> set cs) hnd) + mset (filter (\<lambda>h. h \<in> set cs) hnd) = mset hnd"
    by (induction hnd) auto
  ultimately show ?thesis by (simp add: passed_card_iff)
qed

lemma distinct_hand:
  "distinct (handCards ps) \<Longrightarrow> map_of ps k = Some p \<Longrightarrow> distinct (hand p)"
proof (induction ps)
  case Nil
  then show ?case by simp
next
  case (Cons kp ps)
  obtain k' q where kp: "kp = (k', q)" by (cases kp)
  from Cons show ?case
    by (cases "k' = k") (auto simp: kp handCards_Cons playerCards_def)
qed

lemma mset_allCards_stagePass:
  assumes "getPlayer g pid = Some p" and "cardsToPass p = None" and "distinct (allCards g)"
    and "distinct cs" and "set cs \<subseteq> set (hand p)"
  shows "mset (allCards (stagePass g pid cs)) = mset (allCards g)"
proof -
  from assms(1) have m: "map_of (players g) pid = Some p" by (simp add: getPlayer_def)
  from assms(3) have "distinct (handCards (players g))" by (simp add: allCards_handCards)
  then have d: "distinct (hand p)" using m by (rule distinct_hand)
  let ?f = "\<lambda>p. p\<lparr>cardsToPass := Some cs,
                  hand := filter (\<lambda>handCard.
                     \<not> list_ex (\<lambda>passCard. suit passCard = suit handCard \<and>
                                            rank passCard = rank handCard) cs) (hand p)\<rparr>"
  have "mset (playerCards (?f p)) = mset (playerCards p)"
    using mset_filter_staged [OF d assms(4,5)] assms(2)
    by (simp add: playerCards_def optCards_def)
  with mset_handCards_updPlayer [OF m, of ?f]
  have "mset (handCards (updPlayer pid ?f (players g))) = mset (handCards (players g))"
    by simp
  then show ?thesis
    by (simp add: stagePass_def allCards_handCards)
qed

lemma fst_after_events_broadcast_notify:
  "fst (andThen (andThen (g, outs, None) broadcastGameState) notifyCurrentPlayerTurn) = g"
proof -
  obtain o1 e1 where b: "broadcastGameState g = (g, o1, e1)"
    by (metis fst_broadcastGameState prod.collapse)
  obtain o2 e2 where n: "notifyCurrentPlayerTurn g = (g, o2, e2)"
    by (metis fst_notifyCurrentPlayerTurn prod.collapse)
  show ?thesis
    by (cases e1) (simp_all add: andThen_def b n)
qed

lemma wellFormed_players:
  assumes "wellFormed g"
  obtains a pa b pb c pc d pd where
    "players g = [(a, pa), (b, pb), (c, pc), (d, pd)]" and "playerOrder g = [a, b, c, d]"
    and "distinct [a, b, c, d]"
    and "receivedCards pa = None" "receivedCards pb = None" "receivedCards pc = None"
      "receivedCards pd = None"
proof -
  from assms have l: "length (players g) = 4" by (simp add: wellFormed_def MAX_PLAYERS_def)
  then obtain x1 x2 x3 x4 where ps: "players g = [x1, x2, x3, x4]"
    by (auto simp: length_Suc_conv numeral_eq_Suc)
  obtain a pa where x1: "x1 = (a, pa)" by (cases x1)
  obtain b pb where x2: "x2 = (b, pb)" by (cases x2)
  obtain c pc where x3: "x3 = (c, pc)" by (cases x3)
  obtain d pd where x4: "x4 = (d, pd)" by (cases x4)
  from assms show thesis
    by (intro that [of a pa b pb c pc d pd]) (auto simp: wellFormed_def ps x1 x2 x3 x4)
qed

lemma passLoop_four:
  assumes "distinct [a, b, c, d]" and "dir \<noteq> Hold"
  shows "passLoop dir [a, b, c, d] [0, 1, 2, 3] ([(a, pa), (b, pb), (c, pc), (d, pd)], Map.empty) =
     (([(a, pa\<lparr>cardsToPass := None\<rparr>), (b, pb\<lparr>cardsToPass := None\<rparr>),
        (c, pc\<lparr>cardsToPass := None\<rparr>), (d, pd\<lparr>cardsToPass := None\<rparr>)],
       (case dir of
          Left \<Rightarrow> [b \<mapsto> cardsToPass pa, c \<mapsto> cardsToPass pb, d \<mapsto> cardsToPass pc, a \<mapsto> cardsToPass pd]
        | Right \<Rightarrow> [d \<mapsto> cardsToPass pa, a \<mapsto> cardsToPass pb, b \<mapsto> cardsToPass pc, c \<mapsto> cardsToPass pd]
        | _ \<Rightarrow> [c \<mapsto> cardsToPass pa, d \<mapsto> cardsToPass pb, a \<mapsto> cardsToPass pc, b \<mapsto> cardsToPass pd])),
      None)"
  using assms by (cases dir) (simp_all add: targetPlayerIndex_def jsRem_def)

lemma upt_four: "[0 ..< 4] = [0, 1, 2, 3]"
  by (simp add: upt_rec)

lemma executePassing_four:
  assumes ps: "players g = [(a, pa), (b, pb), (c, pc), (d, pd)]"
    and po: "playerOrder g = [a, b, c, d]" and di: "distinct [a, b, c, d]"
    and dir: "passingDirection g = Some dir" "dir \<noteq> Hold"
  shows "players (fst (executePassing g)) =
     (let t = (case dir of
          Left \<Rightarrow> [b \<mapsto> cardsToPass pa, c \<mapsto> cardsToPass pb, d \<mapsto> cardsToPass pc, a \<mapsto> cardsToPass pd]
        | Right \<Rightarrow> [d \<mapsto> cardsToPass pa, a \<mapsto> cardsToPass pb, b \<mapsto> cardsToPass pc, c \<mapsto> cardsToPass pd]
        | _ \<Rightarrow> [c \<mapsto> cardsToPass pa, d \<mapsto> cardsToPass pb, a \<mapsto> cardsToPass pc, b \<mapsto> cardsToPass pd])
      in map (\<lambda>(k, p). (k, addReceivedCardsToHand (p\<lparr>receivedCards := Some (receiveFrom t k)\<rparr>)))
           [(a, pa\<lparr>cardsToPass := None\<rparr>), (b, pb\<lparr>cardsToPass := None\<rparr>),
            (c, pc\<lparr>cardsToPass := None\<rparr>), (d, pd\<lparr>cardsToPass := None\<rparr>)])"
    and "currentTrick (fst (executePassing g)) = currentTrick g"
proof -
  have ex: "executePassing g =
        (case passLoop dir (playerOrder g) [0 ..< length (playerOrder g)] (players g, Map.empty) of
             ((ps, tempReceived), Some e) \<Rightarrow> (g\<lparr>players := ps\<rparr>, [], Some e)
           | ((ps, tempReceived), None) \<Rightarrow>
               (let ps' = map (\<lambda>(k, p). (k, addReceivedCardsToHand
                                   (p\<lparr>receivedCards := Some (receiveFrom tempReceived k)\<rparr>))) ps;
                    outs = map (\<lambda>(k, p). SendTo k (CardsPassed (receivedCards p))) ps';
                    g1 = g\<lparr>players := ps'\<rparr>;
                    g2 = g1\<lparr>phase := PlayingTrick\<rparr>;
                    g3 = g2\<lparr>currentPlayerIndex := findPlayerWithTwoOfClubs g2\<rparr>
                in andThen (andThen (g3, outs, None) broadcastGameState) notifyCurrentPlayerTurn))"
    using dir by (cases dir) (simp_all add: executePassing_def)
  have pl: "passLoop dir (playerOrder g) [0 ..< length (playerOrder g)] (players g, Map.empty) =
      passLoop dir [a, b, c, d] [0, 1, 2, 3] ([(a, pa), (b, pb), (c, pc), (d, pd)], Map.empty)"
  proof -
    have len: "length [a, b, c, d] = 4" by simp
    show ?thesis unfolding ps po by (simp only: len upt_four)
  qed
  show "players (fst (executePassing g)) =
     (let t = (case dir of
          Left \<Rightarrow> [b \<mapsto> cardsToPass pa, c \<mapsto> cardsToPass pb, d \<mapsto> cardsToPass pc, a \<mapsto> cardsToPass pd]
        | Right \<Rightarrow> [d \<mapsto> cardsToPass pa, a \<mapsto> cardsToPass pb, b \<mapsto> cardsToPass pc, c \<mapsto> cardsToPass pd]
        | _ \<Rightarrow> [c \<mapsto> cardsToPass pa, d \<mapsto> cardsToPass pb, a \<mapsto> cardsToPass pc, b \<mapsto> cardsToPass pd])
      in map (\<lambda>(k, p). (k, addReceivedCardsToHand (p\<lparr>receivedCards := Some (receiveFrom t k)\<rparr>)))
           [(a, pa\<lparr>cardsToPass := None\<rparr>), (b, pb\<lparr>cardsToPass := None\<rparr>),
            (c, pc\<lparr>cardsToPass := None\<rparr>), (d, pd\<lparr>cardsToPass := None\<rparr>)])"
    unfolding ex pl passLoop_four [OF di dir(2)] prod.case option.case Let_def
      fst_after_events_broadcast_notify
    by simp
  show "currentTrick (fst (executePassing g)) = currentTrick g"
    unfolding ex pl passLoop_four [OF di dir(2)] prod.case option.case Let_def
      fst_after_events_broadcast_notify
    by simp
qed

lemma mset_allCards_executePassing:
  assumes "wellFormed g"
  shows "mset (allCards (fst (executePassing g))) = mset (allCards g)"
proof (cases "passingDirection g")
  case None
  then show ?thesis by (simp add: executePassing_def)
next
  case (Some dir)
  show ?thesis
  proof (cases "dir = Hold")
    case True
    with Some show ?thesis by (simp add: executePassing_def)
  next
    case False
    from assms obtain a pa b pb c pc d pd where
      ps: "players g = [(a, pa), (b, pb), (c, pc), (d, pd)]" and po: "playerOrder g = [a, b, c, d]"
      and di: "distinct [a, b, c, d]"
      and rc: "receivedCards pa = None" "receivedCards pb = None" "receivedCards pc = None"
        "receivedCards pd = None"
      by (rule wellFormed_players)
    note e = executePassing_four [OF ps po di Some False]
    have "mset (handCards (players (fst (executePassing g)))) = mset (handCards (players g))"
      unfolding e(1) ps using di rc
      by (cases dir)
        (simp_all add: handCards_def playerCards_def addReceivedCardsToHand_def receiveFrom_def
          optCards_def Let_def split: option.splits)
    then show ?thesis
      by (simp add: allCards_handCards e(2))
  qed
qed

lemma startNewRound_deals:
  assumes "length (players g) = MAX_PLAYERS"
  shows "startNewRound rnd g =
     (if passingDirection (dealRound rnd g) = Some Hold then
        (let g8 = (dealRound rnd g)\<lparr>phase := PlayingTrick\<rparr>;
             g9 = g8\<lparr>currentPlayerIndex := findPlayerWithTwoOfClubs g8\<rparr>
         in andThen (broadcastGameState g9) notifyCurrentPlayerTurn)
      else broadcastGameState ((dealRound rnd g)\<lparr>phase := Passing\<rparr>))"
  unfolding startNewRound_def dealRound_def Let_def using assms by (simp only: simp_thms if_False if_True)

lemma mset_shuffleLoop:
  "i < length d \<Longrightarrow> mset (shuffleLoop rnd i d) = mset d"
proof (induction i arbitrary: d)
  case 0
  then show ?case by simp
next
  case (Suc i)
  let ?j = "rnd (Suc i) mod (Suc i + 1)"
  let ?d = "d[Suc i := d ! ?j, ?j := d ! Suc i]"
  have "?j < Suc i + 1" by (rule mod_less_divisor) simp
  with Suc.prems have j: "?j < length d" by linarith
  have "mset ?d = mset d"
    using mset_swap [OF j Suc.prems] by simp
  moreover have "mset (shuffleLoop rnd i ?d) = mset ?d"
    using Suc.prems by (intro Suc.IH) simp
  ultimately show ?case by (simp add: Let_def)
qed

lemma mset_shuffleDeck: "mset (shuffleDeck rnd d) = mset d"
proof (cases d)
  case Nil
  then show ?thesis by (simp add: shuffleDeck_def)
next
  case (Cons x xs)
  then show ?thesis by (simp add: shuffleDeck_def mset_shuffleLoop)
qed

lemma mset_dealLoop:
  assumes "\<forall>k < MAX_PLAYERS. k < length ids \<and> ids ! k \<in> fst ` set ps"
  shows "mset (handCards (dealLoop ids cs i ps)) = mset (handCards ps) + mset cs"
  using assms
proof (induction cs arbitrary: i ps)
  case Nil
  then show ?case by simp
next
  case (Cons c cs)
  let ?k = "i mod MAX_PLAYERS"
  let ?f = "\<lambda>p. p\<lparr>hand := hand p @ [c]\<rparr>"
  let ?ps = "updPlayer (ids ! ?k) ?f ps"
  have k: "?k < MAX_PLAYERS" by (simp add: MAX_PLAYERS_def)
  with Cons.prems have kl: "?k < length ids" and "ids ! ?k \<in> fst ` set ps" by blast+
  then obtain p where m: "map_of ps (ids ! ?k) = Some p"
    by (metis domD dom_map_of_conv_image_fst)
  have "mset (handCards ?ps) + mset (playerCards p) =
      mset (handCards ps) + mset (playerCards (?f p))"
    by (rule mset_handCards_updPlayer [OF m])
  then have u: "mset (handCards ?ps) = mset (handCards ps) + {#c#}"
    by (simp add: playerCards_def)
  have "\<forall>k < MAX_PLAYERS. k < length ids \<and> ids ! k \<in> fst ` set ?ps"
  proof -
    have "fst ` set ?ps = fst ` set ps"
      using map_fst_updPlayer [of "ids ! ?k" ?f ps] by (metis list.set_map)
    with Cons.prems show ?thesis by simp
  qed
  from Cons.IH [OF this, of "i + 1"] have
    "mset (handCards (dealLoop ids cs (i + 1) ?ps)) = mset (handCards ?ps) + mset cs" .
  with u kl show ?case by (simp add: Let_def)
qed

lemma handCards_sorted:
  "mset (handCards (map (\<lambda>(k, p). (k, p\<lparr>hand := sortHand (hand p)\<rparr>)) ps)) = mset (handCards ps)"
  by (induction ps) (auto simp: handCards_def playerCards_def)

lemma handCards_reset:
  "handCards (map (\<lambda>(k, p). (k, resetForNewRound p)) ps) = []"
  by (induction ps) (auto simp: handCards_def playerCards_def resetForNewRound_def optCards_def)

lemma mset_allCards_dealRound:
  assumes "wellFormed g"
  shows "mset (allCards (dealRound rnd g)) = mset createDeck"
proof -
  let ?ps = "map (\<lambda>(k, p). (k, resetForNewRound p)) (players g)"
  from assms have w: "length (playerOrder g) = MAX_PLAYERS" "playerOrder g = map fst (players g)"
    by (simp_all add: wellFormed_def)
  have keys: "\<forall>k < MAX_PLAYERS. k < length (playerOrder g) \<and> playerOrder g ! k \<in> fst ` set ?ps"
  proof (intro allI impI)
    fix k assume "k < MAX_PLAYERS"
    with w(1) have kl: "k < length (playerOrder g)" by simp
    then have "playerOrder g ! k \<in> set (playerOrder g)" by simp
    also have "set (playerOrder g) = fst ` set ?ps"
      unfolding w(2) by (force simp: image_iff)
    finally show "k < length (playerOrder g) \<and> playerOrder g ! k \<in> fst ` set ?ps"
      using kl by simp
  qed
  have "allCards (dealRound rnd g) =
      handCards (map (\<lambda>(k, p). (k, p\<lparr>hand := sortHand (hand p)\<rparr>))
        (dealLoop (playerOrder g) (shuffleDeck rnd createDeck) 0 ?ps))"
    by (simp add: dealRound_def dealCards_def allCards_handCards createEmptyTrick_def Let_def)
  then show ?thesis
    by (simp add: handCards_sorted mset_dealLoop [OF keys] handCards_reset mset_shuffleDeck)
qed

lemma mset_allCards_startNewRound:
  assumes "wellFormed g"
  shows "mset (allCards (fst (startNewRound rnd g))) = mset createDeck"
proof -
  from assms have l: "length (players g) = MAX_PLAYERS" by (simp add: wellFormed_def)
  have "allCards (fst (startNewRound rnd g)) = allCards (dealRound rnd g)"
    unfolding startNewRound_deals [OF l]
    by (simp add: fst_after_broadcast_notify Let_def) (simp add: allCards_handCards)
  then show ?thesis by (simp add: mset_allCards_dealRound [OF assms])
qed

lemma fst_catch:
  "fst (case r of (g', outs, Some e) \<Rightarrow> (g', outs @ [SendTo pid (ErrorMsg e)])
        | (g', outs, None) \<Rightarrow> (g', outs)) = fst r"
proof -
  obtain g' outs e where r: "r = (g', outs, e)" by (cases r)
  show ?thesis by (cases e) (simp_all add: r)
qed

lemma fst_handleMessage_pass:
  assumes "getPlayer g pid = Some p" and "phase g = Passing"
  shows "fst (handleMessage g pid (SelectCardsToPass cs)) = fst (handlePassCards g pid p cs)"
  unfolding handleMessage_def assms option.case Let_def ClientMsg.case fst_catch
  by simp

lemma fst_handleMessage_play:
  assumes "getPlayer g pid = Some p" and "phase g = PlayingTrick"
    and "getCurrentPlayerId g = Some pid"
  shows "fst (handleMessage g pid (PlayCard c)) = fst (handlePlayCard g pid p c)"
  unfolding handleMessage_def assms option.case Let_def ClientMsg.case fst_catch
  by simp

lemma received_updPlayer:
  "(\<And>p. receivedCards (f p) = receivedCards p) \<Longrightarrow>
   list_all (\<lambda>(k, p). receivedCards p = None) ps \<Longrightarrow>
   list_all (\<lambda>(k, p). receivedCards p = None) (updPlayer pid f ps)"
  by (induction ps) auto

lemma length_updPlayer: "length (updPlayer pid f ps) = length ps"
  by (induction ps) auto

lemma wellFormed_players_update:
  assumes "wellFormed g" and "\<And>p. receivedCards (f p) = receivedCards p"
  shows "wellFormed (g\<lparr>players := updPlayer pid f (players g)\<rparr>)"
proof -
  from assms(1) have a: "length (players g) = MAX_PLAYERS"
    "playerOrder g = map fst (players g)" "distinct (playerOrder g)"
    "list_all (\<lambda>(k, p). receivedCards p = None) (players g)"
    unfolding wellFormed_def by blast+
  have r: "list_all (\<lambda>(k, p). receivedCards p = None) (updPlayer pid f (players g))"
    using assms(2) a(4) by (rule received_updPlayer)
  show ?thesis
    unfolding wellFormed_def
    using a(1,2,3) r by (simp add: length_updPlayer)
qed

lemma wellFormed_stagePass:
  assumes "wellFormed g"
  shows "wellFormed (stagePass g pid cs)"
  unfolding stagePass_def
  by (rule wellFormed_players_update [OF assms]) simp

lemma mset_allCards_handlePassCards:
  assumes "getPlayer g pid = Some p" and "wellFormed g" and "distinct (allCards g)"
    and "distinct cs"
  shows "mset (allCards (fst (handlePassCards g pid p cs))) = mset (allCards g)"
proof (cases "length cs \<noteq> PASS_COUNT \<or> cardsToPass p \<noteq> None \<or>
    \<not> list_all (\<lambda>c. c \<in> set (hand p)) cs")
  case True
  from handlePassCards_reject [OF this, of g pid] show ?thesis by auto
next
  case False
  then have acc: "length cs = PASS_COUNT" "cardsToPass p = None"
    "list_all (\<lambda>c. c \<in> set (hand p)) cs"
    by simp_all
  let ?g = "stagePass g pid cs"
  from acc(3) have "set cs \<subseteq> set (hand p)" by (auto simp: list_all_iff)
  with assms acc(2) have st: "mset (allCards ?g) = mset (allCards g)"
    by (intro mset_allCards_stagePass)
  have wf: "wellFormed ?g" using assms(2) by (rule wellFormed_stagePass)
  have "fst (handlePassCards g pid p cs) = ?g \<or>
      fst (handlePassCards g pid p cs) = fst (executePassing ?g)"
    unfolding handlePassCards_accept [OF acc]
    by (cases "getGameStateForPlayer ?g pid") (simp_all add: fst_andThen)
  with st mset_allCards_executePassing [OF wf] show ?thesis by auto
qed

lemma wellFormed_fields:
  assumes "wellFormed g" and "length (players g') = length (players g)"
    and "map fst (players g') = map fst (players g)" and "playerOrder g' = playerOrder g"
    and "list_all (\<lambda>(k, p). receivedCards p = None) (players g')"
  shows "wellFormed g'"
  using assms unfolding wellFormed_def by metis

lemma wellFormed_broadcast_notify:
  "wellFormed g \<Longrightarrow> wellFormed (fst (andThen (broadcastGameState g) notifyCurrentPlayerTurn))"
  by (simp add: fst_after_broadcast_notify)

lemma map_fst_dealLoop: "map fst (dealLoop ids cs i ps) = map fst ps"
  by (induction cs arbitrary: i ps) (simp_all add: Let_def)

lemma received_dealLoop:
  "list_all (\<lambda>(k, p). receivedCards p = None) ps \<Longrightarrow>
   list_all (\<lambda>(k, p). receivedCards p = None) (dealLoop ids cs i ps)"
proof (induction cs arbitrary: i ps)
  case Nil
  then show ?case by simp
next
  case (Cons c cs)
  have "list_all (\<lambda>(k, p). receivedCards p = None)
      (updPlayer (ids ! (i mod MAX_PLAYERS)) (\<lambda>p. p\<lparr>hand := hand p @ [c]\<rparr>) ps)"
    using Cons.prems by (intro received_updPlayer) simp_all
  with Cons show ?case by (simp add: Let_def)
qed

lemma map_fst_map_players: "map fst (map (\<lambda>(k, p). (k, h k p)) ps) = map fst ps"
  by (induction ps) auto

lemma received_map_players:
  "(\<And>k p. (k, p) \<in> set ps \<Longrightarrow> receivedCards (h k p) = None) \<Longrightarrow>
   list_all (\<lambda>(k, p). receivedCards p = None) (map (\<lambda>(k, p). (k, h k p)) ps)"
  by (auto simp: list_all_iff)

lemma wellFormed_dealRound:
  assumes "wellFormed g"
  shows "wellFormed (dealRound rnd g)"
proof (rule wellFormed_fields [OF assms])
  let ?ps = "map (\<lambda>(k, p). (k, resetForNewRound p)) (players g)"
  let ?dl = "dealLoop (playerOrder g) (shuffleDeck rnd createDeck) 0 ?ps"
  have pl: "players (dealRound rnd g) = map (\<lambda>(k, p). (k, p\<lparr>hand := sortHand (hand p)\<rparr>)) ?dl"
    by (simp add: dealRound_def dealCards_def Let_def)
  have r0: "list_all (\<lambda>(k, p). receivedCards p = None) ?ps"
    by (rule received_map_players) (simp add: resetForNewRound_def)
  have m0: "map fst ?ps = map fst (players g)"
    by (rule map_fst_map_players)
  have "map fst (players (dealRound rnd g)) = map fst ?dl"
    unfolding pl by (rule map_fst_map_players)
  also have "\<dots> = map fst ?ps" by (rule map_fst_dealLoop)
  finally show m: "map fst (players (dealRound rnd g)) = map fst (players g)"
    using m0 by simp
  from m show "length (players (dealRound rnd g)) = length (players g)"
    by (metis length_map)
  show "playerOrder (dealRound rnd g) = playerOrder g"
    by (simp add: dealRound_def dealCards_def Let_def)
  have "list_all (\<lambda>(k, p). receivedCards p = None) ?dl"
    using r0 by (rule received_dealLoop)
  then show "list_all (\<lambda>(k, p). receivedCards p = None) (players (dealRound rnd g))"
    unfolding pl by (auto simp: list_all_iff)
qed

lemma wellFormed_phase [simp]: "wellFormed (g\<lparr>phase := x\<rparr>) = wellFormed g"
  by (simp add: wellFormed_def)

lemma wellFormed_currentPlayerIndex [simp]:
  "wellFormed (g\<lparr>currentPlayerIndex := x\<rparr>) = wellFormed g"
  by (simp add: wellFormed_def)

lemma wellFormed_currentTrick [simp]: "wellFormed (g\<lparr>currentTrick := x\<rparr>) = wellFormed g"
  by (simp add: wellFormed_def)

lemma wellFormed_heartsBroken [simp]: "wellFormed (g\<lparr>heartsBroken := x\<rparr>) = wellFormed g"
  by (simp add: wellFormed_def)

lemma wellFormed_startNewRound:
  assumes "wellFormed g"
  shows "wellFormed (fst (startNewRound rnd g))"
proof -
  from assms have l: "length (players g) = MAX_PLAYERS" by (simp add: wellFormed_def)
  show ?thesis
    unfolding startNewRound_deals [OF l]
    by (simp add: fst_after_broadcast_notify Let_def wellFormed_dealRound [OF assms])
qed

lemma wellFormed_cong:
  "players g' = players g \<Longrightarrow> playerOrder g' = playerOrder g \<Longrightarrow> wellFormed g' = wellFormed g"
  unfolding wellFormed_def by metis

lemma wellFormed_endTrick:
  assumes "wellFormed g"
  shows "wellFormed (fst (endTrick g))"
proof -
  have o: "playerOrder (fst (endTrick g)) = playerOrder g"
    by (simp add: endTrick_def Let_def split: sum.splits prod.splits option.splits)
  have "players (fst (endTrick g)) = players g \<or>
      (\<exists>w n. players (fst (endTrick g)) =
         updPlayer w (\<lambda>p. p\<lparr>roundScore := roundScore p + n\<rparr>) (players g))"
    by (simp add: endTrick_def Let_def split: sum.splits prod.splits option.splits) blast
  then show ?thesis
  proof
    assume "players (fst (endTrick g)) = players g"
    with o assms show ?thesis using wellFormed_cong by blast
  next
    assume "\<exists>w n. players (fst (endTrick g)) =
         updPlayer w (\<lambda>p. p\<lparr>roundScore := roundScore p + n\<rparr>) (players g)"
    then obtain w n where pl: "players (fst (endTrick g)) =
         updPlayer w (\<lambda>p. p\<lparr>roundScore := roundScore p + n\<rparr>) (players g)"
      by blast
    have u: "wellFormed (g\<lparr>players := updPlayer w (\<lambda>p. p\<lparr>roundScore := roundScore p + n\<rparr>) (players g)\<rparr>)"
      by (rule wellFormed_players_update [OF assms]) simp
    have "wellFormed (fst (endTrick g)) =
        wellFormed (g\<lparr>players := updPlayer w (\<lambda>p. p\<lparr>roundScore := roundScore p + n\<rparr>) (players g)\<rparr>)"
      by (rule wellFormed_cong) (simp_all add: pl o)
    with u show ?thesis by simp
  qed
qed

lemma wellFormed_placeCard:
  assumes "wellFormed g"
  shows "wellFormed (placeCard g pid c i)"
proof -
  have u: "wellFormed (g\<lparr>players := updPlayer pid (\<lambda>p. p\<lparr>hand := spliceOne i (hand p)\<rparr>) (players g)\<rparr>)"
    by (rule wellFormed_players_update [OF assms]) simp
  have "wellFormed (placeCard g pid c i) =
      wellFormed (g\<lparr>players := updPlayer pid (\<lambda>p. p\<lparr>hand := spliceOne i (hand p)\<rparr>) (players g)\<rparr>)"
    by (rule wellFormed_cong) (simp_all add: placeCard_def Let_def)
  with u show ?thesis by simp
qed

lemma wellFormed_handlePlayCard:
  assumes "wellFormed g"
  shows "wellFormed (fst (handlePlayCard g pid p c))"
proof (cases "isValidPlay_reason g p c")
  case (Some r)
  with assms show ?thesis by (simp add: handlePlayCard_def)
next
  case None
  show ?thesis
  proof (cases "findIndex (\<lambda>h. suit h = suit c \<and> rank h = rank c) (hand p)")
    case n: None
    with None assms show ?thesis by (simp add: handlePlayCard_def)
  next
    case (Some i)
    have w: "wellFormed (placeCard g pid c i)" using assms by (rule wellFormed_placeCard)
    have e: "wellFormed (fst (andThen (broadcastGameState (placeCard g pid c i)) endTrick))"
      using wellFormed_endTrick [OF w] w by (simp add: fst_andThen split: option.splits)
    show ?thesis
      unfolding handlePlayCard_accept [OF None Some]
      using w e by (simp add: fst_after_broadcast_notify)
  qed
qed

lemma wellFormed_executePassing:
  assumes "wellFormed g"
  shows "wellFormed (fst (executePassing g))"
proof (cases "passingDirection g")
  case None
  with assms show ?thesis by (simp add: executePassing_def)
next
  case (Some dir)
  show ?thesis
  proof (cases "dir = Hold")
    case True
    with Some assms show ?thesis by (simp add: executePassing_def)
  next
    case False
    from assms obtain a pa b pb c pc d pd where
      ps: "players g = [(a, pa), (b, pb), (c, pc), (d, pd)]" and po: "playerOrder g = [a, b, c, d]"
      and di: "distinct [a, b, c, d]"
      by (rule wellFormed_players)
    note e = executePassing_four [OF ps po di Some False]
    have o: "playerOrder (fst (executePassing g)) = playerOrder g"
      using Some False
      by (cases dir) (simp_all add: executePassing_def Let_def fst_after_events_broadcast_notify
          split: prod.splits option.splits)
    show ?thesis
    proof (rule wellFormed_fields [OF assms _ _ o])
      show "map fst (players (fst (executePassing g))) = map fst (players g)"
        unfolding e(1) ps by (simp add: Let_def)
      show "length (players (fst (executePassing g))) = length (players g)"
        unfolding e(1) ps by (simp add: Let_def)
      show "list_all (\<lambda>(k, p). receivedCards p = None) (players (fst (executePassing g)))"
        unfolding e(1) by (simp add: Let_def addReceivedCardsToHand_def)
    qed
  qed
qed

lemma wellFormed_handlePassCards:
  assumes "wellFormed g"
  shows "wellFormed (fst (handlePassCards g pid p cs))"
proof (cases "length cs \<noteq> PASS_COUNT \<or> cardsToPass p \<noteq> None \<or>
    \<not> list_all (\<lambda>c. c \<in> set (hand p)) cs")
  case True
  from handlePassCards_reject [OF this, of g pid] assms show ?thesis by auto
next
  case False
  then have acc: "length cs = PASS_COUNT" "cardsToPass p = None"
    "list_all (\<lambda>c. c \<in> set (hand p)) cs"
    by simp_all
  let ?g = "stagePass g pid cs"
  have wf: "wellFormed ?g" using assms by (rule wellFormed_stagePass)
  have "fst (handlePassCards g pid p cs) = ?g \<or>
      fst (handlePassCards g pid p cs) = fst (executePassing ?g)"
    unfolding handlePassCards_accept [OF acc]
    by (cases "getGameStateForPlayer ?g pid") (simp_all add: fst_andThen)
  with wf wellFormed_executePassing [OF wf] show ?thesis by auto
qed

lemma wellFormed_handleMessage:
  assumes "wellFormed g"
  shows "wellFormed (fst (handleMessage g pid m))"
proof (cases "getPlayer g pid")
  case None
  with assms show ?thesis by (simp add: handleMessage_def)
next
  case (Some p)
  have "fst (handleMessage g pid m) = g \<or>
      fst (handleMessage g pid m) = fst (handlePassCards g pid p (case m of SelectCardsToPass cs \<Rightarrow> cs | _ \<Rightarrow> [])) \<or>
      fst (handleMessage g pid m) = fst (handlePlayCard g pid p (case m of PlayCard c \<Rightarrow> c | _ \<Rightarrow> mkCard Clubs Two))"
    unfolding handleMessage_def Some option.case Let_def fst_catch
    by (cases m) auto
  with assms wellFormed_handlePassCards [OF assms] wellFormed_handlePlayCard [OF assms]
  show ?thesis by metis
qed

lemma wellFormed_endRound:
  assumes "wellFormed g"
  shows "wellFormed (fst (endRound g))"
proof -
  let ?g = "fst (endRound g)"
  have pl: "\<exists>h. players ?g = map (\<lambda>(k, p). (k, p\<lparr>score := score p + h k p\<rparr>)) (players g)"
  proof (cases "findShooter (players g)")
    case None
    then have "players ?g = map (\<lambda>(k, p). (k, p\<lparr>score := score p + roundScore p\<rparr>)) (players g)"
      by (simp add: players_endRound)
    then show ?thesis by (intro exI [of _ "\<lambda>k p. roundScore p"])
  next
    case (Some sid)
    then have "players ?g = map (\<lambda>(k, p). (k, p\<lparr>score := score p + (if k = sid then 0 else 26)\<rparr>)) (players g)"
      by (auto simp: players_endRound split: prod.splits)
    then show ?thesis by (intro exI [of _ "\<lambda>k p. if k = sid then 0 else 26"])
  qed
  then obtain h where pl: "players ?g = map (\<lambda>(k, p). (k, p\<lparr>score := score p + h k p\<rparr>)) (players g)"
    by blast
  from assms have rc: "list_all (\<lambda>(k, p). receivedCards p = None) (players g)"
    unfolding wellFormed_def by blast
  show ?thesis
  proof (rule wellFormed_fields [OF assms])
    show "map fst (players ?g) = map fst (players g)"
      unfolding pl by (rule map_fst_map_players)
    show "length (players ?g) = length (players g)"
      unfolding pl by simp
    show "playerOrder ?g = playerOrder g"
      by (simp add: endRound_def Let_def split: sum.splits option.splits)
    show "list_all (\<lambda>(k, p). receivedCards p = None) (players ?g)"
      unfolding pl using rc by (auto simp: list_all_iff)
  qed
qed

lemma wellFormed_endTrickTimer:
  assumes "wellFormed g"
  shows "wellFormed (fst (endTrickTimer w g))"
  using assms wellFormed_endRound [OF assms]
  by (simp add: endTrickTimer_def Let_def fst_after_broadcast_notify split: option.splits)

text \<open>
  C3, as stated, fails: once the first trick of the round is resolved and the next trick
  begins, the four cards of the resolved trick are in no hand, not in the current trick
  and not in pass-staging. The state holds 48 cards.
\<close>

theorem cards_not_conserved_counterexample:
  "phase secondTrickGame = PlayingTrick \<and>
   length (allCards secondTrickGame) = 48 \<and> length createDeck = 52 \<and>
   mset (allCards secondTrickGame) \<noteq> mset createDeck"
proof -
  have a: "length (allCards secondTrickGame) = 48" by code_simp
  have b: "length createDeck = 52" by code_simp
  have c: "phase secondTrickGame = PlayingTrick" by code_simp
  have "mset (allCards secondTrickGame) \<noteq> mset createDeck"
  proof
    assume "mset (allCards secondTrickGame) = mset createDeck"
    then have "length (allCards secondTrickGame) = length createDeck"
      by (rule mset_eq_length)
    with a b show False by simp
  qed
  with a b c show ?thesis by (intro conjI)
qed


text \<open>
  C3, amended. In a session of four seats: the deal of a round puts exactly the cards of
  the deck into the hands; a pass selection of three distinct cards, staged or completing
  the pass, and every card play, including the resolution of the trick it completes, leave
  the multiset of the cards in hands, trick and pass-staging as it was; and when the timer
  after a resolved trick starts the next trick, exactly the cards of the resolved trick
  leave the state. Each of these steps keeps the session well formed, so the steps chain.
  In a round whose pass selections are of distinct cards, the state thus holds the whole
  deck from the deal until the second trick begins, and from then on the deck without the
  cards of the completed tricks.
\<close>

theorem cards_conserved:
  assumes "wellFormed g"
  shows "wellFormed (fst (startNewRound rnd g)) \<and>
         mset (allCards (fst (startNewRound rnd g))) = mset createDeck \<and>
         wellFormed (fst (handleMessage g pid m)) \<and>
         (distinct (allCards g) \<and> distinct cs \<longrightarrow>
            mset (allCards (fst (handleMessage g pid (SelectCardsToPass cs)))) = mset (allCards g)) \<and>
         mset (allCards (fst (handleMessage g pid (PlayCard c)))) = mset (allCards g) \<and>
         wellFormed (fst (endTrickTimer w g)) \<and>
         mset (allCards (fst (endTrickTimer w g))) =
           (if startsNextTrick w g
            then mset (allCards g) - mset (map snd (cards (currentTrick g)))
            else mset (allCards g))"
proof (intro conjI impI)
  show "wellFormed (fst (startNewRound rnd g))"
    using assms by (rule wellFormed_startNewRound)
next
  show "mset (allCards (fst (startNewRound rnd g))) = mset createDeck"
    using assms by (rule mset_allCards_startNewRound)
next
  show "wellFormed (fst (handleMessage g pid m))"
    using assms by (rule wellFormed_handleMessage)
next
  assume a: "distinct (allCards g) \<and> distinct cs"
  show "mset (allCards (fst (handleMessage g pid (SelectCardsToPass cs)))) = mset (allCards g)"
  proof (cases "getPlayer g pid")
    case None
    then show ?thesis by (simp add: handleMessage_def)
  next
    case (Some p)
    show ?thesis
    proof (cases "phase g = Passing")
      case True
      from a have "mset (allCards (fst (handlePassCards g pid p cs))) = mset (allCards g)"
        by (intro mset_allCards_handlePassCards Some assms) simp_all
      then show ?thesis
        unfolding fst_handleMessage_pass [OF Some True] .
    next
      case False
      with Some show ?thesis by (simp add: handleMessage_def)
    qed
  qed
next
  show "mset (allCards (fst (handleMessage g pid (PlayCard c)))) = mset (allCards g)"
  proof (cases "getPlayer g pid")
    case None
    then show ?thesis by (simp add: handleMessage_def)
  next
    case (Some p)
    show ?thesis
    proof (cases "phase g = PlayingTrick \<and> getCurrentPlayerId g = Some pid")
      case True
      then have t: "phase g = PlayingTrick" "getCurrentPlayerId g = Some pid" by simp_all
      show ?thesis
        unfolding fst_handleMessage_play [OF Some t]
        by (rule mset_allCards_handlePlayCard [OF Some])
    next
      case False
      with Some show ?thesis by (auto simp: handleMessage_def)
    qed
  qed
next
  show "wellFormed (fst (endTrickTimer w g))"
    using assms by (rule wellFormed_endTrickTimer)
next
  show "mset (allCards (fst (endTrickTimer w g))) =
           (if startsNextTrick w g
            then mset (allCards g) - mset (map snd (cards (currentTrick g)))
            else mset (allCards g))"
    by (rule mset_allCards_endTrickTimer)
qed

theorem cards_conserved_witness:
  "wellFormed joinedGame \<and> wellFormed dealtGame \<and>
   mset (allCards dealtGame) = mset createDeck \<and>
   wellFormed firstTrickGame \<and>
   mset (allCards (fst (handleMessage firstTrickGame 1 (PlayCard (mkCard Diamonds Two))))) =
     mset (allCards firstTrickGame)"
proof -
  have w1: "wellFormed joinedGame" by code_simp
  have w2: "wellFormed firstTrickGame" by code_simp
  note t1 = cards_conserved [OF w1, of noSwapDraws]
  note t2 = cards_conserved [OF w2, of _ 1 _ _ "mkCard Diamonds Two"]
  have A: "wellFormed (fst (startNewRound noSwapDraws joinedGame))"
    by (rule t1 [THEN conjunct1])
  have B: "mset (allCards (fst (startNewRound noSwapDraws joinedGame))) = mset createDeck"
    by (rule t1 [THEN conjunct2, THEN conjunct1])
  have C: "mset (allCards (fst (handleMessage firstTrickGame 1 (PlayCard (mkCard Diamonds Two))))) =
     mset (allCards firstTrickGame)"
    by (rule t2 [THEN conjunct2, THEN conjunct2, THEN conjunct2, THEN conjunct2, THEN conjunct1])
  from w1 A B w2 C show ?thesis
    unfolding dealtGame_def by (intro conjI)
qed

section \<open>Passing: a selection with a repeated card\<close>

text \<open>
  C6. \<^verbatim>\<open>handlePassCards\<close> checks the number of cards and that each is in the hand, not that
  they differ. In round 1, passing to the left, every seat holds 13 cards. Seat 0 selects
  the 2H three times: the selection is accepted (the events are state updates, none is an
  error), the one 2H leaves the hand and three are staged. After the three other seats
  have selected and the pass has been executed, seat 0 holds 15 cards, seat 1 holds the
  2H three times among its 13, and the state holds 54 cards.
\<close>

theorem duplicate_selection_accepted:
  "phase dealtGame = Passing \<and> passingDirection dealtGame = Some Left \<and>
   map (\<lambda>(k, p). (k, length (hand p))) (players dealtGame) = [(0, 13), (1, 13), (2, 13), (3, 13)] \<and>
   snd (handleMessage dealtGame 0
          (SelectCardsToPass [mkCard Hearts Two, mkCard Hearts Two, mkCard Hearts Two])) =
     [SendTo 0 GameStateUpdate, SendTo 0 GameStateUpdate, SendTo 1 GameStateUpdate,
      SendTo 2 GameStateUpdate, SendTo 3 GameStateUpdate] \<and>
   phase duplicatePassedGame = PlayingTrick \<and>
   map (\<lambda>(k, p). (k, length (hand p))) (players duplicatePassedGame) =
     [(0, 15), (1, 13), (2, 13), (3, 13)] \<and>
   length (filter (\<lambda>c. c = mkCard Hearts Two) (seatHand duplicatePassedGame 1)) = 3 \<and>
   length (allCards duplicatePassedGame) = 54"
  by code_simp


end
